theory Spec2Isabelle
  imports Complex_Main "HOL-Library.Sublist" "HOL-Library.Char_ord" "HOL-Library.List_Lexorder"
begin

section \<open>Python values and exceptions\<close>

text \<open>
  The context cache of \<^verbatim>\<open>scripts/autocontext.py\<close> is a dataclass whose fields are not
  checked at run time: after \<^verbatim>\<open>json.load\<close> a field holds whatever JSON value the file
  had. The fields are therefore modelled as dynamic values. A dict is an association
  list in insertion order (keys distinct); JSON numbers are integers here (floats are
  outside the model), and a Python \<^verbatim>\<open>str\<close> is a list of 8-bit characters.
\<close>

datatype pyval =
    PNone
  | PBool bool
  | PInt int
  | PStr string
  | PList "pyval list"
  | PDict "(string \<times> pyval) list"

text \<open>
  Every \<^verbatim>\<open>raise\<close> is a value. \<open>LibraryError\<close> stands for any exception raised inside a
  collaborator that is not part of this module (the vector store, the parser).
\<close>

datatype error = TypeError | AttributeError | IndexError | OSError | LibraryError

section \<open>String primitives\<close>

definition is_space :: "char \<Rightarrow> bool" where
  "is_space c =
     (let n = (of_char c :: nat)
      in (9 \<le> n \<and> n \<le> 13) \<or> (28 \<le> n \<and> n \<le> 32) \<or> n = 133 \<or> n = 160)"

text \<open>\<^verbatim>\<open>s.split()\<close>: the maximal runs of non-whitespace characters, in order.\<close>

fun split_ws :: "string \<Rightarrow> string \<Rightarrow> string list" where
  "split_ws cur [] = (if cur = [] then [] else [cur])"
| "split_ws cur (c # cs) =
     (if is_space c then (if cur = [] then split_ws [] cs else cur # split_ws [] cs)
      else split_ws (cur @ [c]) cs)"

definition str_split :: "string \<Rightarrow> string list" where
  "str_split s = split_ws [] s"

text \<open>\<^verbatim>\<open>len(content.split())\<close>, the whitespace-token count used for budget accounting.\<close>

definition token_len :: "string \<Rightarrow> int" where
  "token_len s = int (length (str_split s))"

text \<open>\<^verbatim>\<open>s.split(sep)\<close> for a one-character separator: never empty.\<close>

fun split_on :: "char \<Rightarrow> string \<Rightarrow> string \<Rightarrow> string list" where
  "split_on sep cur [] = [cur]"
| "split_on sep cur (c # cs) =
     (if c = sep then cur # split_on sep [] cs else split_on sep (cur @ [c]) cs)"

text \<open>\<^verbatim>\<open>f.readlines()\<close>: the lines of a text, each keeping its line feed.\<close>

fun lines_of :: "string \<Rightarrow> string \<Rightarrow> string list" where
  "lines_of cur [] = (if cur = [] then [] else [cur])"
| "lines_of cur (c # cs) =
     (if c = CHR 0x0A then (cur @ [c]) # lines_of [] cs else lines_of (cur @ [c]) cs)"

definition readlines :: "string \<Rightarrow> string list" where
  "readlines s = lines_of [] s"

fun str_join :: "string \<Rightarrow> string list \<Rightarrow> string" where
  "str_join sep [] = []"
| "str_join sep [x] = x"
| "str_join sep (x # y # ys) = x @ sep @ str_join sep (y # ys)"

text \<open>\<^verbatim>\<open>s.replace(old, new)\<close> for a non-empty \<open>old\<close>: leftmost, non-overlapping.\<close>

function str_replace :: "string \<Rightarrow> string \<Rightarrow> string \<Rightarrow> string" where
  "str_replace old new [] = []"
| "str_replace old new (c # cs) =
     (if old \<noteq> [] \<and> prefix old (c # cs)
      then new @ str_replace old new (drop (length old) (c # cs))
      else c # str_replace old new cs)"
  by pat_completeness auto
termination
  by (relation "measure (\<lambda>(old, new, s). length s)") (auto simp: neq_Nil_conv)

text \<open>
  Python's slice \<^verbatim>\<open>xs[:n]\<close>: the first \<open>n\<close> elements, and for a negative \<open>n\<close> all
  but the last \<open>-n\<close>.
\<close>

definition py_take :: "int \<Rightarrow> 'a list \<Rightarrow> 'a list" where
  "py_take n xs = (if 0 \<le> n then take (nat n) xs else take (length xs - nat (- n)) xs)"

fun digits :: "nat \<Rightarrow> string" where
  "digits n =
     (if n < 10 then [char_of (48 + n)] else digits (n div 10) @ [char_of (48 + n mod 10)])"

definition show_int :: "int \<Rightarrow> string" where
  "show_int i = (if i < 0 then CHR ''-'' # digits (nat (- i)) else digits (nat i))"

section \<open>Paths\<close>

text \<open>
  A \<^verbatim>\<open>pathlib.Path\<close> on a POSIX system: its anchor and its components. The anchor is
  empty for a relative path, \<^verbatim>\<open>//\<close> for a string that starts with exactly two slashes,
  and \<^verbatim>\<open>/\<close> for any other string that starts with a slash. Construction drops empty
  and \<^verbatim>\<open>.\<close> components.
\<close>

datatype path = Path (anchor: string) (parts: "string list")

definition is_absolute :: "path \<Rightarrow> bool" where
  "is_absolute p = (anchor p \<noteq> [])"

definition path_anchor :: "string \<Rightarrow> string" where
  "path_anchor s =
     (if take 2 s = ''//'' \<and> take 3 s \<noteq> ''///'' then ''//''
      else if take 1 s = ''/'' then ''/''
      else [])"

definition mk_path :: "string \<Rightarrow> path" where
  "mk_path s =
     Path (path_anchor s)
          (filter (\<lambda>c. c \<noteq> [] \<and> c \<noteq> ''.'') (split_on (CHR ''/'') [] s))"

definition str_path :: "path \<Rightarrow> string" where
  "str_path p =
     (if parts p = [] then (if anchor p = [] then ''.'' else anchor p)
      else anchor p @ str_join ''/'' (parts p))"

text \<open>\<^verbatim>\<open>a / b\<close>: an absolute right operand replaces the left one.\<close>

definition path_div :: "path \<Rightarrow> path \<Rightarrow> path" where
  "path_div a b = (if is_absolute b then b else Path (anchor a) (parts a @ parts b))"

definition path_name :: "path \<Rightarrow> string" where
  "path_name p = (if parts p = [] then [] else last (parts p))"

text \<open>
  \<^verbatim>\<open>Path + str\<close>: \<^verbatim>\<open>pathlib\<close> defines no addition, so the expression raises
  \<^verbatim>\<open>TypeError\<close> whatever the operands are.
\<close>

definition path_plus_str :: "path \<Rightarrow> string \<Rightarrow> error + path" where
  "path_plus_str p s = Inl TypeError"

section \<open>The data model of autocontext.py\<close>

record ContextCache =
  recent_files :: pyval
  hot_files :: pyval
  last_query :: pyval
  last_task :: pyval
  timestamp :: pyval

definition empty_cache :: ContextCache where
  "empty_cache =
     \<lparr>recent_files = PList [], hot_files = PDict [], last_query = PStr [],
      last_task = PStr [], timestamp = PStr []\<rparr>"

record ContextResult =
  files :: "(string \<times> string) list"
  token_count :: int
  source :: string

definition field_names :: "string list" where
  "field_names = [''recent_files'', ''hot_files'', ''last_query'', ''last_task'', ''timestamp'']"

definition dict_get :: "(string \<times> 'v) list \<Rightarrow> string \<Rightarrow> 'v \<Rightarrow> 'v" where
  "dict_get d k dflt = (case map_of d k of None \<Rightarrow> dflt | Some v \<Rightarrow> v)"

text \<open>\<^verbatim>\<open>d[k] = v\<close>: an existing key keeps its position, a new key goes last.\<close>

fun dict_set :: "(string \<times> 'v) list \<Rightarrow> string \<Rightarrow> 'v \<Rightarrow> (string \<times> 'v) list" where
  "dict_set [] k v = [(k, v)]"
| "dict_set ((k', v') # d) k v = (if k' = k then (k, v) # d else (k', v') # dict_set d k v)"

text \<open>\<^verbatim>\<open>asdict(self)\<close>.\<close>

definition to_dict :: "ContextCache \<Rightarrow> pyval" where
  "to_dict c =
     PDict [(''recent_files'', recent_files c), (''hot_files'', hot_files c),
            (''last_query'', last_query c), (''last_task'', last_task c),
            (''timestamp'', timestamp c)]"

text \<open>
  \<^verbatim>\<open>cls(**data)\<close>: a \<^verbatim>\<open>TypeError\<close> unless \<open>data\<close> is a mapping whose keys are all field
  names; absent fields take their defaults; the values are stored as they are.
\<close>

definition from_dict :: "pyval \<Rightarrow> error + ContextCache" where
  "from_dict data =
     (case data of
        PDict d \<Rightarrow>
          if list_all (\<lambda>k. k \<in> set field_names) (map fst d)
          then Inr \<lparr>recent_files = dict_get d ''recent_files'' (PList []),
                    hot_files = dict_get d ''hot_files'' (PDict []),
                    last_query = dict_get d ''last_query'' (PStr []),
                    last_task = dict_get d ''last_task'' (PStr []),
                    timestamp = dict_get d ''timestamp'' (PStr [])\<rparr>
          else Inl TypeError
      | _ \<Rightarrow> Inl TypeError)"

section \<open>The world outside the module\<close>

text \<open>
  A source file that exists is either readable as UTF-8 text or makes \<^verbatim>\<open>open\<close> or
  \<^verbatim>\<open>readlines\<close> raise. A cache file that exists either makes \<^verbatim>\<open>open\<close> or
  \<^verbatim>\<open>json.load\<close> raise (truncated, not JSON, unreadable) or parses to a value:
  \<^verbatim>\<open>json.load\<close> after \<^verbatim>\<open>json.dump\<close> is taken to return the value dumped. The cache
  file is kept apart from the source files. The text of a source file is what Python
  hands out in text mode, line ends translated. Every operation is given its root: the
  search for a project root lives in \<^verbatim>\<open>scripts/utils.py\<close>, which is not part of this
  development.
\<close>

datatype src_file = Unreadable | Text string

datatype cache_file = Corrupt | Doc pyval

record chunk =
  path :: string
  start_line :: nat
  end_line :: nat
  content :: string
  content_hash :: string

record search_result =
  result_chunk :: chunk
  score :: real

datatype event = StoreLoad string | StoreSearch string | CacheLoad string | CacheSave string

text \<open>
  \<open>vs_load\<close> and \<open>vs_search\<close> are the behaviour of \<^verbatim>\<open>VectorStore(dir).load()\<close> and
  \<^verbatim>\<open>store.search(query, k)\<close>, \<open>parse_imports\<close> that of \<^verbatim>\<open>parse_file(path).imports\<close>:
  they live in modules that are not part of this development and are parameters.
  \<open>clock\<close> is \<^verbatim>\<open>datetime.utcnow().isoformat()\<close>. \<open>trace\<close> records, in order, the
  accesses to the vector store and to the cache file.

  \<open>stat_error\<close> holds of a path that cannot be examined: \<^verbatim>\<open>Path.exists()\<close> ignores the
  errors of a missing file and re-raises every other \<^verbatim>\<open>OSError\<close> of \<^verbatim>\<open>stat\<close>, such as
  that of a directory that may not be searched or of a name that is too long.
  \<open>write_ok\<close> holds of a path that can be examined if \<^verbatim>\<open>mkdir\<close> of its directory and
  \<^verbatim>\<open>open(path, 'w')\<close> succeed.
\<close>

record world =
  src :: "string \<Rightarrow> src_file option"
  cache_store :: "string \<Rightarrow> cache_file option"
  stat_error :: "string \<Rightarrow> bool"
  write_ok :: "string \<Rightarrow> bool"
  clock :: string
  vs_load :: "string \<Rightarrow> error + bool"
  vs_search :: "string \<Rightarrow> string \<Rightarrow> int \<Rightarrow> error + search_result list"
  parse_imports :: "string \<Rightarrow> error + string list"
  trace :: "event list"

definition log_event :: "event \<Rightarrow> world \<Rightarrow> world" where
  "log_event e w = w\<lparr>trace := trace w @ [e]\<rparr>"

text \<open>\<^verbatim>\<open>path.exists()\<close> on a source path: it answers, or raises for a path that cannot be examined.\<close>

definition path_exists :: "world \<Rightarrow> string \<Rightarrow> error + bool" where
  "path_exists w p = (if stat_error w p then Inl OSError else Inr (src w p \<noteq> None))"

text \<open>
  A file can be written if its path can be examined and creating its directory and
  opening it for writing succeed: a path on which \<^verbatim>\<open>stat\<close> fails cannot be opened either.
\<close>

definition cache_writable :: "world \<Rightarrow> string \<Rightarrow> bool" where
  "cache_writable w p = (\<not> stat_error w p \<and> write_ok w p)"

section \<open>Loading and saving the cache\<close>

definition get_cache_path :: "path \<Rightarrow> path" where
  "get_cache_path rt =
     path_div (path_div (path_div rt (mk_path ''.mcp'')) (mk_path ''memory''))
              (mk_path ''context_cache.json'')"

text \<open>
  The part of \<open>load_cache\<close> after the test \<^verbatim>\<open>cache_path.exists()\<close>: the guarded read of
  lines 59 to 64 and the default of line 66.
\<close>

definition read_cache :: "world \<Rightarrow> string \<Rightarrow> ContextCache" where
  "read_cache w cache_path =
     (case cache_store w cache_path of
        None \<Rightarrow> empty_cache
      | Some Corrupt \<Rightarrow> empty_cache
      | Some (Doc data) \<Rightarrow>
          (case from_dict data of
             Inl e \<Rightarrow> empty_cache
           | Inr c \<Rightarrow> c))"

text \<open>
  \<^verbatim>\<open>cache_path.exists()\<close> on line 58 is outside the \<^verbatim>\<open>try\<close>: where the path cannot
  be examined its error leaves \<open>load_cache\<close>.
\<close>

definition load_cache :: "path \<Rightarrow> world \<Rightarrow> error + (ContextCache \<times> world)" where
  "load_cache rt w =
     (let cache_path = str_path (get_cache_path rt)
      in if stat_error w cache_path then Inl OSError
         else Inr (read_cache w cache_path, log_event (CacheLoad cache_path) w))"

text \<open>
  \<^verbatim>\<open>mkdir\<close> and \<^verbatim>\<open>open(cache_path, 'w')\<close> are not guarded: where the file cannot be
  written the exception leaves \<open>save_cache\<close>.
\<close>

definition save_cache :: "ContextCache \<Rightarrow> path \<Rightarrow> world \<Rightarrow> error + world" where
  "save_cache cache rt w =
     (let cache_path = str_path (get_cache_path rt)
      in if cache_writable w cache_path
         then Inr (log_event (CacheSave cache_path)
                (w\<lparr>cache_store := (cache_store w)
                     (cache_path := Some (Doc (to_dict (cache\<lparr>timestamp := PStr (clock w @ ''Z'')\<rparr>))))\<rparr>))
         else Inl OSError)"

section \<open>Tracking accesses\<close>

text \<open>\<^verbatim>\<open>v + 1\<close> on a dynamic value (\<^verbatim>\<open>bool\<close> is a subclass of \<^verbatim>\<open>int\<close>).\<close>

definition add_one :: "pyval \<Rightarrow> error + pyval" where
  "add_one v =
     (case v of
        PInt n \<Rightarrow> Inr (PInt (n + 1))
      | PBool b \<Rightarrow> Inr (PInt (of_bool b + 1))
      | _ \<Rightarrow> Inl TypeError)"

text \<open>
  A \<open>recent_files\<close> that is not a list makes \<^verbatim>\<open>in\<close>, \<^verbatim>\<open>remove\<close> or \<^verbatim>\<open>insert\<close> raise,
  a \<open>hot_files\<close> that is not a dict makes \<^verbatim>\<open>get\<close> raise; nothing is saved then.
\<close>

definition track_file_access :: "path \<Rightarrow> path \<Rightarrow> world \<Rightarrow> error + world" where
  "track_file_access p rt w =
     (case load_cache rt w of
        Inl e \<Rightarrow> Inl e
      | Inr (cache, w1) \<Rightarrow>
          (let path_str = str_path p
           in case recent_files cache of
                PList xs \<Rightarrow>
                  (let xs1 = (if PStr path_str \<in> set xs then remove1 (PStr path_str) xs
                              else xs);
                       xs2 = take 20 (PStr path_str # xs1)
                   in case hot_files cache of
                        PDict d \<Rightarrow>
                          (case add_one (dict_get d path_str (PInt 0)) of
                             Inl e \<Rightarrow> Inl e
                           | Inr v \<Rightarrow>
                               save_cache
                                 (cache\<lparr>recent_files := PList xs2,
                                        hot_files := PDict (dict_set d path_str v)\<rparr>) rt w1)
                      | _ \<Rightarrow> Inl AttributeError)
              | PStr s \<Rightarrow> Inl AttributeError
              | PDict d \<Rightarrow> Inl AttributeError
              | _ \<Rightarrow> Inl TypeError))"

definition update_task :: "string \<Rightarrow> path \<Rightarrow> world \<Rightarrow> error + world" where
  "update_task task rt w =
     (case load_cache rt w of
        Inl e \<Rightarrow> Inl e
      | Inr (cache, w1) \<Rightarrow> save_cache (cache\<lparr>last_task := PStr task\<rparr>) rt w1)"

section \<open>Context from recent and hot files\<close>

definition resolve :: "path \<Rightarrow> string \<Rightarrow> path" where
  "resolve rt file_path =
     (let p = mk_path file_path in if is_absolute p then p else path_div rt p)"

text \<open>
  The \<^verbatim>\<open>try\<close> block of both loops (lines 116 to 123 and 149 to 156): a file on which
  \<^verbatim>\<open>open\<close> or \<^verbatim>\<open>readlines\<close> raises contributes nothing.
\<close>

definition open_file :: "world \<Rightarrow> int \<Rightarrow> path \<Rightarrow> (string \<times> string) option" where
  "open_file w max_lines p =
     (case src w (str_path p) of
        None \<Rightarrow> None
      | Some Unreadable \<Rightarrow> None
      | Some (Text t) \<Rightarrow> Some (str_path p, concat (py_take max_lines (readlines t))))"

text \<open>
  The body of both loops from \<^verbatim>\<open>if path.exists()\<close> on. The test is outside the
  \<^verbatim>\<open>try\<close>: on a path that cannot be examined it raises and ends the call.
\<close>

definition read_file :: "world \<Rightarrow> int \<Rightarrow> path \<Rightarrow> error + (string \<times> string) option" where
  "read_file w max_lines p =
     (case path_exists w (str_path p) of
        Inl e \<Rightarrow> Inl e
      | Inr False \<Rightarrow> Inr None
      | Inr True \<Rightarrow> Inr (open_file w max_lines p))"

text \<open>\<^verbatim>\<open>Path(file_path)\<close> is outside the \<^verbatim>\<open>try\<close> too: an entry that is not a string raises.\<close>

fun collect_files ::
  "world \<Rightarrow> path \<Rightarrow> int \<Rightarrow> pyval list \<Rightarrow> (string \<times> string) list \<times> int
     \<Rightarrow> error + ((string \<times> string) list \<times> int)" where
  "collect_files w rt max_lines [] acc = Inr acc"
| "collect_files w rt max_lines (e # es) (fs, tc) =
     (case e of
        PStr file_path \<Rightarrow>
          (case read_file w max_lines (resolve rt file_path) of
             Inl e \<Rightarrow> Inl e
           | Inr None \<Rightarrow> collect_files w rt max_lines es (fs, tc)
           | Inr (Some (p, c)) \<Rightarrow>
               collect_files w rt max_lines es (fs @ [(p, c)], tc + token_len c))
      | _ \<Rightarrow> Inl TypeError)"

text \<open>\<^verbatim>\<open>for x in v[:n]\<close>: a list or a string can be sliced and iterated.\<close>

definition slice_items :: "pyval \<Rightarrow> int \<Rightarrow> error + pyval list" where
  "slice_items v n =
     (case v of
        PList xs \<Rightarrow> Inr (py_take n xs)
      | PStr s \<Rightarrow> Inr (map (\<lambda>c. PStr [c]) (py_take n s))
      | _ \<Rightarrow> Inl TypeError)"

definition get_recent_context ::
  "int \<Rightarrow> int \<Rightarrow> path \<Rightarrow> world \<Rightarrow> error + (ContextResult \<times> world)" where
  "get_recent_context limit max_lines rt w =
     (case load_cache rt w of
        Inl e \<Rightarrow> Inl e
      | Inr (cache, w1) \<Rightarrow>
          (case slice_items (recent_files cache) limit of
             Inl e \<Rightarrow> Inl e
           | Inr items \<Rightarrow>
               (case collect_files w1 rt max_lines items ([], 0) of
                  Inl e \<Rightarrow> Inl e
                | Inr (fs, tc) \<Rightarrow>
                    Inr (\<lparr>files = fs, token_count = tc, source = ''recent''\<rparr>, w1))))"

definition count_key :: "pyval \<Rightarrow> int option" where
  "count_key v = (case v of PInt n \<Rightarrow> Some n | PBool b \<Rightarrow> Some (of_bool b) | _ \<Rightarrow> None)"

text \<open>
  Python's \<^verbatim>\<open>==\<close> on values read from JSON: numbers by value (\<^verbatim>\<open>True == 1\<close>), lists
  element by element, dicts as mappings whatever the order of their keys, and values
  of different kinds are unequal.
\<close>

fun py_eq :: "pyval \<Rightarrow> pyval \<Rightarrow> bool"
  and list_eq :: "pyval list \<Rightarrow> pyval list \<Rightarrow> bool"
  and dict_in :: "(string \<times> pyval) list \<Rightarrow> (string \<times> pyval) list \<Rightarrow> bool" where
  "py_eq PNone PNone = True"
| "py_eq (PBool a) (PBool b) = (a = b)"
| "py_eq (PBool a) (PInt n) = (of_bool a = n)"
| "py_eq (PInt m) (PBool b) = (m = of_bool b)"
| "py_eq (PInt m) (PInt n) = (m = n)"
| "py_eq (PStr a) (PStr b) = (a = b)"
| "py_eq (PList xs) (PList ys) = list_eq xs ys"
| "py_eq (PDict d) (PDict e) = (length d = length e \<and> dict_in d e)"
| "py_eq x y = False"
| "list_eq [] [] = True"
| "list_eq (x # xs) (y # ys) = (py_eq x y \<and> list_eq xs ys)"
| "list_eq xs ys = False"
| "dict_in [] e = True"
| "dict_in (kv # d) e =
     ((case map_of e (fst kv) of None \<Rightarrow> False | Some v \<Rightarrow> py_eq (snd kv) v) \<and> dict_in d e)"

text \<open>
  Python's \<^verbatim>\<open><\<close> on such values, \<open>None\<close> where it raises \<^verbatim>\<open>TypeError\<close>: numbers by
  value, strings by code point, lists by the first position where they differ (the
  shorter first if there is none), and nothing else.
\<close>

fun py_lt :: "pyval \<Rightarrow> pyval \<Rightarrow> bool option"
  and list_lt :: "pyval list \<Rightarrow> pyval list \<Rightarrow> bool option" where
  "py_lt (PBool a) (PBool b) = Some ((of_bool a :: int) < of_bool b)"
| "py_lt (PBool a) (PInt n) = Some (of_bool a < n)"
| "py_lt (PInt m) (PBool b) = Some (m < of_bool b)"
| "py_lt (PInt m) (PInt n) = Some (m < n)"
| "py_lt (PStr a) (PStr b) = Some (a < b)"
| "py_lt (PList xs) (PList ys) = list_lt xs ys"
| "py_lt x y = None"
| "list_lt [] [] = Some False"
| "list_lt [] (y # ys) = Some True"
| "list_lt (x # xs) [] = Some False"
| "list_lt (x # xs) (y # ys) = (if py_eq x y then list_lt xs ys else py_lt x y)"

fun all_comparable :: "pyval list \<Rightarrow> bool" where
  "all_comparable [] = True"
| "all_comparable (x # xs) = (list_all (\<lambda>y. py_lt x y \<noteq> None) xs \<and> all_comparable xs)"

text \<open>
  Stable insertion for a descending order: an item goes behind the items with a
  larger key and in front of the later items with an equal key.
\<close>

fun insert_desc :: "string \<times> pyval \<Rightarrow> (string \<times> pyval) list \<Rightarrow> (string \<times> pyval) list" where
  "insert_desc x [] = [x]"
| "insert_desc x (y # ys) =
     (if py_lt (snd x) (snd y) = Some True then y # insert_desc x ys else x # y # ys)"

text \<open>
  \<^verbatim>\<open>sorted(items, key=lambda x: x[1], reverse=True)\<close>: by count, largest first, items
  of equal count in their order in the dict. A sort has to compare, directly or through
  a chain of other items, every two of its items, and no chain of comparisons that
  succeed joins two values that cannot be compared: so it raises \<^verbatim>\<open>TypeError\<close> exactly
  when two of the counts cannot be compared, and fewer than two items are never
  compared.
\<close>

definition sorted_items :: "(string \<times> pyval) list \<Rightarrow> error + (string \<times> pyval) list" where
  "sorted_items d =
     (if all_comparable (map snd d) then Inr (foldr insert_desc d []) else Inl TypeError)"

definition get_hot_context ::
  "int \<Rightarrow> int \<Rightarrow> path \<Rightarrow> world \<Rightarrow> error + (ContextResult \<times> world)" where
  "get_hot_context limit max_lines rt w =
     (case load_cache rt w of
        Inl e \<Rightarrow> Inl e
      | Inr (cache, w1) \<Rightarrow>
          (case hot_files cache of
             PDict d \<Rightarrow>
               (case sorted_items d of
                  Inl e \<Rightarrow> Inl e
                | Inr sorted_files \<Rightarrow>
                    (case collect_files w1 rt max_lines
                            (map (\<lambda>x. PStr (fst x)) (py_take limit sorted_files)) ([], 0) of
                       Inl e \<Rightarrow> Inl e
                     | Inr (fs, tc) \<Rightarrow>
                         Inr (\<lparr>files = fs, token_count = tc, source = ''hot''\<rparr>, w1)))
           | _ \<Rightarrow> Inl AttributeError))"

section \<open>Context from semantic search\<close>

fun collect_results ::
  "search_result list \<Rightarrow> (string \<times> string) list \<times> int \<Rightarrow> (string \<times> string) list \<times> int" where
  "collect_results [] acc = acc"
| "collect_results (r # rs) (fs, tc) =
     collect_results rs
       (fs @ [(path (result_chunk r), content (result_chunk r))],
        tc + token_len (content (result_chunk r)))"

definition index_dir :: "path \<Rightarrow> string" where
  "index_dir rt = str_path (path_div (path_div rt (mk_path ''.mcp'')) (mk_path ''vector_index''))"

text \<open>
  The \<^verbatim>\<open>try\<close> block: any exception of the store leaves \<open>files\<close> and \<open>token_count\<close>
  as they are.
\<close>

definition semantic_search ::
  "string \<Rightarrow> int \<Rightarrow> path \<Rightarrow> world \<Rightarrow> ((string \<times> string) list \<times> int) \<times> world" where
  "semantic_search query limit rt w =
     (let w1 = log_event (StoreLoad (index_dir rt)) w
      in case vs_load w (index_dir rt) of
           Inr True \<Rightarrow>
             (let w2 = log_event (StoreSearch (index_dir rt)) w1
              in case vs_search w (index_dir rt) query limit of
                   Inr results \<Rightarrow> (collect_results results ([], 0), w2)
                 | Inl e \<Rightarrow> (([], 0), w2))
         | Inr False \<Rightarrow> (([], 0), w1)
         | Inl e \<Rightarrow> (([], 0), w1))"

text \<open>The cache update follows the \<^verbatim>\<open>try\<close> block and is not guarded.\<close>

definition get_semantic_context ::
  "string \<Rightarrow> int \<Rightarrow> path \<Rightarrow> world \<Rightarrow> error + (ContextResult \<times> world)" where
  "get_semantic_context query limit rt w =
     (let (found, w2) = semantic_search query limit rt w
      in case load_cache rt w2 of
           Inl e \<Rightarrow> Inl e
         | Inr (cache, w3) \<Rightarrow>
             (case save_cache (cache\<lparr>last_query := PStr query\<rparr>) rt w3 of
                Inl e \<Rightarrow> Inl e
              | Inr w4 \<Rightarrow>
                  Inr (\<lparr>files = fst found, token_count = snd found,
                        source = ''semantic''\<rparr>, w4)))"

section \<open>Context from dependencies\<close>

text \<open>
  \<^verbatim>\<open>imp.replace('from ', '').replace('import ', '').split()[0].split('.')\<close>: an
  import line without a word raises \<^verbatim>\<open>IndexError\<close>.
\<close>

definition import_parts :: "string \<Rightarrow> error + string list" where
  "import_parts imp =
     (case str_split (str_replace ''import '' [] (str_replace ''from '' [] imp)) of
        [] \<Rightarrow> Inl IndexError
      | m # ms \<Rightarrow> Inr (split_on (CHR ''.'') [] m))"

text \<open>
  The loop \<^verbatim>\<open>for i in range(len(parts), 0, -1)\<close>, from \<open>i\<close> downwards. It returns the
  accumulated \<open>(files, token_count)\<close> and the exception that ended it, if any. In
  \<^verbatim>\<open>root / '/'.join(parts[:i]) + '.py'\<close> the division binds tighter than the sum.
\<close>

fun resolve_import ::
  "world \<Rightarrow> path \<Rightarrow> string list \<Rightarrow> nat \<Rightarrow> (string \<times> string) list \<times> int
     \<Rightarrow> ((string \<times> string) list \<times> int) \<times> error option" where
  "resolve_import w rt ps 0 acc = (acc, None)"
| "resolve_import w rt ps (Suc i) acc =
     (case path_plus_str (path_div rt (mk_path (str_join ''/'' (take (Suc i) ps)))) ''.py'' of
        Inl e \<Rightarrow> (acc, Some e)
      | Inr possible_path \<Rightarrow>
          (case path_exists w (str_path possible_path) of
             Inl e \<Rightarrow> (acc, Some e)
           | Inr False \<Rightarrow> resolve_import w rt ps i acc
           | Inr True \<Rightarrow>
               (case src w (str_path possible_path) of
                  Some (Text t) \<Rightarrow>
                    ((fst acc @ [(str_path possible_path, take 2000 t)],
                      snd acc + token_len (take 2000 t)), None)
                | _ \<Rightarrow> (acc, None))))"

fun dependency_loop ::
  "world \<Rightarrow> path \<Rightarrow> string list \<Rightarrow> (string \<times> string) list \<times> int
     \<Rightarrow> ((string \<times> string) list \<times> int) \<times> error option" where
  "dependency_loop w rt [] acc = (acc, None)"
| "dependency_loop w rt (imp # imps) acc =
     (case import_parts imp of
        Inl e \<Rightarrow> (acc, Some e)
      | Inr ps \<Rightarrow>
          (case resolve_import w rt ps (length ps) acc of
             (acc', Some e) \<Rightarrow> (acc', Some e)
           | (acc', None) \<Rightarrow> dependency_loop w rt imps acc'))"

text \<open>The \<^verbatim>\<open>try\<close> block of \<open>get_dependency_context\<close>, with the exception it ends in.\<close>

definition dependency_body ::
  "path \<Rightarrow> path \<Rightarrow> world \<Rightarrow> ((string \<times> string) list \<times> int) \<times> error option" where
  "dependency_body file_path rt w =
     (case parse_imports w (str_path file_path) of
        Inl e \<Rightarrow> (([], 0), Some e)
      | Inr imports \<Rightarrow> dependency_loop w rt imports ([], 0))"

text \<open>\<^verbatim>\<open>except Exception: pass\<close> keeps what the block had accumulated.\<close>

definition get_dependency_context :: "path \<Rightarrow> path \<Rightarrow> world \<Rightarrow> error + ContextResult" where
  "get_dependency_context file_path rt w =
     (let acc = fst (dependency_body file_path rt w)
      in Inr \<lparr>files = fst acc, token_count = snd acc, source = ''dependency''\<rparr>)"

section \<open>Automatic context\<close>

text \<open>The first loop stores every recent file that fits, without a membership test.\<close>

fun add_recent ::
  "int \<Rightarrow> (string \<times> string) list \<Rightarrow> (string \<times> string) list \<times> int
     \<Rightarrow> (string \<times> string) list \<times> int" where
  "add_recent token_budget [] st = st"
| "add_recent token_budget ((p, c) # rest) (all_files, tokens_used) =
     (if tokens_used + token_len c < token_budget
      then add_recent token_budget rest (dict_set all_files p c, tokens_used + token_len c)
      else add_recent token_budget rest (all_files, tokens_used))"

text \<open>The loops over the semantic and the hot files skip a path already stored.\<close>

fun add_new ::
  "int \<Rightarrow> (string \<times> string) list \<Rightarrow> (string \<times> string) list \<times> int
     \<Rightarrow> (string \<times> string) list \<times> int" where
  "add_new token_budget [] st = st"
| "add_new token_budget ((p, c) # rest) (all_files, tokens_used) =
     (if p \<notin> set (map fst all_files) \<and> tokens_used + token_len c < token_budget
      then add_new token_budget rest (dict_set all_files p c, tokens_used + token_len c)
      else add_new token_budget rest (all_files, tokens_used))"

definition semantic_phase ::
  "string \<Rightarrow> int \<Rightarrow> path \<Rightarrow> (string \<times> string) list \<times> int \<Rightarrow> world
     \<Rightarrow> error + (((string \<times> string) list \<times> int) \<times> world)" where
  "semantic_phase task token_budget rt st w =
     (if task \<noteq> [] \<and> snd st < token_budget
      then (case get_semantic_context task 3 rt w of
              Inl e \<Rightarrow> Inl e
            | Inr (semantic, w') \<Rightarrow> Inr (add_new token_budget (files semantic) st, w'))
      else Inr (st, w))"

definition hot_phase ::
  "int \<Rightarrow> path \<Rightarrow> (string \<times> string) list \<times> int \<Rightarrow> world
     \<Rightarrow> error + (((string \<times> string) list \<times> int) \<times> world)" where
  "hot_phase token_budget rt st w =
     (if snd st < token_budget
      then (case get_hot_context 2 50 rt w of
              Inl e \<Rightarrow> Inl e
            | Inr (hot, w') \<Rightarrow> Inr (add_new token_budget (files hot) st, w'))
      else Inr (st, w))"

text \<open>
  The merge of \<open>get_auto_context\<close>: \<open>all_files\<close> (a dict, in insertion order) and
  \<open>tokens_used\<close> after the three phases.
\<close>

definition auto_merge ::
  "string \<Rightarrow> int \<Rightarrow> path \<Rightarrow> world \<Rightarrow> error + (((string \<times> string) list \<times> int) \<times> world)" where
  "auto_merge task token_budget rt w =
     (case get_recent_context 3 50 rt w of
        Inl e \<Rightarrow> Inl e
      | Inr (recent, w1) \<Rightarrow>
          (case semantic_phase task token_budget rt
                  (add_recent token_budget (files recent) ([], 0)) w1 of
             Inl e \<Rightarrow> Inl e
           | Inr (st2, w2) \<Rightarrow> hot_phase token_budget rt st2 w2))"

definition format_output :: "(string \<times> string) list \<Rightarrow> int \<Rightarrow> string" where
  "format_output all_files tokens_used =
     str_join [CHR 0x0A]
       ([''# Auto-Loaded Context'',
         ''# Files: '' @ show_int (int (length all_files)) @ '' | Tokens: ~'' @ show_int tokens_used,
         []]
        @ concat (map (\<lambda>(p, c).
            [''## '' @ path_name (mk_path p), ''# '' @ p, ''```python'', take 1500 c, ''```'', []])
            all_files))"

definition get_auto_context :: "string \<Rightarrow> int \<Rightarrow> path \<Rightarrow> world \<Rightarrow> error + (string \<times> world)" where
  "get_auto_context task token_budget rt w =
     (case auto_merge task token_budget rt w of
        Inl e \<Rightarrow> Inl e
      | Inr ((all_files, tokens_used), w') \<Rightarrow> Inr (format_output all_files tokens_used, w'))"

text \<open>
  What every step of the three loops keeps: the stored paths are distinct, the running
  total is below the budget once a file is stored and 0 before, and the stored files
  together have no more tokens than the running total.
\<close>

definition merge_inv :: "int \<Rightarrow> (string \<times> string) list \<times> int \<Rightarrow> bool" where
  "merge_inv token_budget st =
     (distinct (map fst (fst st))
      \<and> (if fst st = [] then snd st = 0 else snd st < token_budget)
      \<and> sum_list (map (\<lambda>x. token_len (snd x)) (fst st)) \<le> snd st)"

section \<open>The similarity search of the vector store\<close>

text \<open>
  The module \<^verbatim>\<open>scripts/vector_store.py\<close> (the class \<^verbatim>\<open>VectorStore\<close> with \<^verbatim>\<open>search\<close>)
  is not part of this development. This section follows the specification's Similarity
  Search instead. Floating-point scores are real numbers here, and \<open>k\<close> is a count.
\<close>

text \<open>
  Modelled from the spec: the persisted unit of the index (the code of the index store
  is missing), a chunk with its embedding and the fingerprint of its file.
\<close>

record index_entry =
  entry_chunk :: chunk
  embedding :: "real list"
  fingerprint :: string

text \<open>Modelled from the spec: the dot product of the cosine formula (the scoring code is missing).\<close>

definition dot :: "real list \<Rightarrow> real list \<Rightarrow> real" where
  "dot a b = sum_list (map2 (*) a b)"

text \<open>
  Modelled from the spec: \<open>score = dot(a,b) / (|a| |b|)\<close>, and 0 for a zero-norm vector
  (the scoring code is missing).
\<close>

definition cosine :: "real list \<Rightarrow> real list \<Rightarrow> real" where
  "cosine a b =
     (if sqrt (dot a a) = 0 \<or> sqrt (dot b b) = 0 then 0
      else dot a b / (sqrt (dot a a) * sqrt (dot b b)))"

text \<open>
  Modelled from the spec: the order of the results (the ranking code is missing), by
  score descending and, on exactly equal scores, by \<open>(path, start_line)\<close> ascending.
\<close>

definition ranks_before :: "search_result \<Rightarrow> search_result \<Rightarrow> bool" where
  "ranks_before a b \<longleftrightarrow>
     score b < score a \<or>
     (score a = score b \<and>
        (path (result_chunk a) < path (result_chunk b) \<or>
         (path (result_chunk a) = path (result_chunk b) \<and>
          start_line (result_chunk a) \<le> start_line (result_chunk b))))"

text \<open>Modelled from the spec: a full sort by that order (the ranking code is missing), as an insertion sort.\<close>

fun insert_ranked :: "search_result \<Rightarrow> search_result list \<Rightarrow> search_result list" where
  "insert_ranked r [] = [r]"
| "insert_ranked r (x # xs) =
     (if ranks_before r x then r # x # xs else x # insert_ranked r xs)"

text \<open>Modelled from the spec: the results of a full sort (the ranking code is missing).\<close>

definition rank_results :: "search_result list \<Rightarrow> search_result list" where
  "rank_results rs = foldr insert_ranked rs []"

text \<open>
  Modelled from the spec: \<^verbatim>\<open>search(query_text, k)\<close> (the method \<^verbatim>\<open>VectorStore.search\<close> is
  missing): the first \<open>k\<close> entries of the full sort, and no result for an empty query
  text. The similarity and the embedding of the query are parameters: the
  specification's similarity is \<open>cosine\<close>, and the ranking does not depend on which one
  is used.
\<close>

definition search ::
  "(real list \<Rightarrow> real list \<Rightarrow> real) \<Rightarrow> (string \<Rightarrow> real list) \<Rightarrow> index_entry list
     \<Rightarrow> string \<Rightarrow> nat \<Rightarrow> search_result list" where
  "search sim embed_fn idx query_text k =
     (if query_text = [] then []
      else take k (rank_results
             (map (\<lambda>e. \<lparr>result_chunk = entry_chunk e,
                         score = sim (embed_fn query_text) (embedding e)\<rparr>) idx)))"

section \<open>The incremental updater\<close>

text \<open>
  The code of \<^verbatim>\<open>reindex\<close> is not part of this development. This section follows the
  specification's Incremental Updater and its error taxonomy instead. The chunker and
  the embedding provider are parameters.
\<close>

text \<open>
  Modelled from the spec: a file the enumeration yields (the file walker is missing),
  with its file-level fingerprint and its text, if it can be read.
\<close>

record disk_file =
  file_path :: string
  file_fingerprint :: string
  file_text :: "string option"

text \<open>Modelled from the spec: the summary \<open>{added, updated, removed, unchanged, failed}\<close> (the code of \<^verbatim>\<open>reindex\<close> is missing).\<close>

record summary =
  added :: nat
  updated :: nat
  removed :: nat
  unchanged :: nat
  failed :: nat

text \<open>Modelled from the spec: the index and the embedding cache, content hash to vector (the index store is missing).\<close>

record index_state =
  entries :: "index_entry list"
  embedding_cache :: "(string \<times> real list) list"

text \<open>
  Modelled from the spec: the collaborators of the updater (their code is missing). No
  provider is the failure of the configuration; a provider may fail on a batch.
\<close>

record indexer =
  chunker :: "string \<Rightarrow> string \<Rightarrow> chunk list"
  provider :: "(string list \<Rightarrow> real list list option) option"

text \<open>Modelled from the spec: the one error kind that aborts a reindex (the code of \<^verbatim>\<open>reindex\<close> is missing).\<close>

datatype reindex_error = NoProvider

text \<open>Modelled from the spec: the chunks whose content hash the embedding cache does not hold (the cache code is missing).\<close>

definition cache_misses :: "(string \<times> real list) list \<Rightarrow> chunk list \<Rightarrow> chunk list" where
  "cache_misses cache chunks = filter (\<lambda>c. map_of cache (content_hash c) = None) chunks"

text \<open>
  Modelled from the spec: the provider is called for the cache misses only, in one batch
  (the updater's code is missing). The result is the cache after the call and the
  number of chunks left without a vector: all misses of a batch that failed.
\<close>

definition embed_chunks ::
  "(string list \<Rightarrow> real list list option) \<Rightarrow> (string \<times> real list) list \<Rightarrow> chunk list
     \<Rightarrow> (string \<times> real list) list \<times> nat" where
  "embed_chunks embed_fn cache chunks =
     (let misses = cache_misses cache chunks
      in if misses = [] then (cache, 0)
         else (case embed_fn (map content misses) of
                 None \<Rightarrow> (cache, length misses)
               | Some vs \<Rightarrow>
                   if length vs = length misses
                   then (cache @ zip (map content_hash misses) vs, 0)
                   else (cache, length misses)))"

text \<open>Modelled from the spec: one entry for each chunk that has a vector (the updater's code is missing).\<close>

definition new_entries ::
  "(string \<times> real list) list \<Rightarrow> string \<Rightarrow> chunk list \<Rightarrow> index_entry list" where
  "new_entries cache fp chunks =
     concat (map (\<lambda>c. case map_of cache (content_hash c) of
                         None \<Rightarrow> []
                       | Some v \<Rightarrow> [\<lparr>entry_chunk = c, embedding = v, fingerprint = fp\<rparr>]) chunks)"

text \<open>
  Modelled from the spec: steps 2 and 3 of the updater for one file (its code is
  missing). A file whose fingerprint matches all of its entries is unchanged. Otherwise
  its entries are removed; an unreadable file counts as failed and stays out of the
  index; a readable one is chunked and embedded, and counts as added or updated.
\<close>

definition index_file ::
  "(string list \<Rightarrow> real list list option) \<Rightarrow> (string \<Rightarrow> string \<Rightarrow> chunk list) \<Rightarrow> disk_file
     \<Rightarrow> index_state \<times> summary \<Rightarrow> index_state \<times> summary" where
  "index_file embed_fn chunk_fn f acc =
     (let st = fst acc; s = snd acc;
          existing = filter (\<lambda>e. path (entry_chunk e) = file_path f) (entries st);
          others = filter (\<lambda>e. path (entry_chunk e) \<noteq> file_path f) (entries st)
      in if existing \<noteq> [] \<and> list_all (\<lambda>e. fingerprint e = file_fingerprint f) existing
         then (st, s\<lparr>unchanged := unchanged s + 1\<rparr>)
         else (case file_text f of
                 None \<Rightarrow> (st\<lparr>entries := others\<rparr>, s\<lparr>failed := failed s + 1\<rparr>)
               | Some text \<Rightarrow>
                   (let chunks = chunk_fn (file_path f) text;
                        r = embed_chunks embed_fn (embedding_cache st) chunks;
                        st' = \<lparr>entries = others @ new_entries (fst r) (file_fingerprint f) chunks,
                               embedding_cache = fst r\<rparr>
                    in if existing = []
                       then (st', s\<lparr>added := added s + 1, failed := failed s + snd r\<rparr>)
                       else (st', s\<lparr>updated := updated s + 1, failed := failed s + snd r\<rparr>))))"

text \<open>Modelled from the spec: the summary before the first file (the code of \<^verbatim>\<open>reindex\<close> is missing).\<close>

definition empty_summary :: summary where
  "empty_summary = \<lparr>added = 0, updated = 0, removed = 0, unchanged = 0, failed = 0\<rparr>"

text \<open>
  Modelled from the spec: \<^verbatim>\<open>reindex(project_root)\<close> (its code is missing). Without a
  provider it aborts. Otherwise every file on disk is visited, the entries of paths no
  longer on disk are removed, and the summary is returned.
\<close>

definition reindex ::
  "indexer \<Rightarrow> disk_file list \<Rightarrow> index_state \<Rightarrow> reindex_error + (index_state \<times> summary)" where
  "reindex ix disk st =
     (case provider ix of
        None \<Rightarrow> Inl NoProvider
      | Some embed_fn \<Rightarrow>
          (let r = foldl (\<lambda>acc f. index_file embed_fn (chunker ix) f acc) (st, empty_summary) disk;
               gone = remdups (filter (\<lambda>p. p \<notin> set (map file_path disk))
                                (map (\<lambda>e. path (entry_chunk e)) (entries (fst r))))
           in Inr ((fst r)\<lparr>entries :=
                      filter (\<lambda>e. path (entry_chunk e) \<in> set (map file_path disk)) (entries (fst r))\<rparr>,
                   (snd r)\<lparr>removed := length gone\<rparr>)))"

section \<open>Observing the accesses\<close>

text \<open>
  The value and the recorded accesses of an operation that has returned, and the error
  of one that raised.
\<close>

definition result_value :: "error + ('a \<times> world) \<Rightarrow> 'a option" where
  "result_value r = (case r of Inl e \<Rightarrow> None | Inr x \<Rightarrow> Some (fst x))"


definition result_trace :: "error + ('a \<times> world) \<Rightarrow> event list option" where
  "result_trace r = (case r of Inl e \<Rightarrow> None | Inr x \<Rightarrow> Some (trace (snd x)))"

definition world_trace :: "error + world \<Rightarrow> event list option" where
  "world_trace r = (case r of Inl e \<Rightarrow> None | Inr w \<Rightarrow> Some (trace w))"

section \<open>Reading a report back\<close>

text \<open>The number that a decimal numeral stands for.\<close>

definition read_nat :: "string \<Rightarrow> nat" where
  "read_nat s = foldl (\<lambda>a c. 10 * a + (of_char c - 48)) 0 s"

definition read_int :: "string \<Rightarrow> int" where
  "read_int s = (if take 1 s = ''-'' then - int (read_nat (drop 1 s)) else int (read_nat s))"

definition second_line :: "string \<Rightarrow> string" where
  "second_line s =
     takeWhile (\<lambda>c. c \<noteq> CHR 0x0A) (drop 1 (dropWhile (\<lambda>c. c \<noteq> CHR 0x0A) s))"

text \<open>
  What a reader finds in the second line of a text returned by \<open>get_auto_context\<close>, a
  line of the form \<^verbatim>\<open># Files: 3 | Tokens: ~120\<close>: the number of files and the token
  total it reports, and nothing for a line of another form.
\<close>

definition reported :: "string \<Rightarrow> (int \<times> int) option" where
  "reported s =
     (case str_split (second_line s) of
        [a, b, n, c, d, t] \<Rightarrow>
          if a = ''#'' \<and> b = ''Files:'' \<and> c = ''|'' \<and> d = ''Tokens:'' \<and> take 1 t = ''~''
          then Some (read_int n, read_int (drop 1 t))
          else None
      | _ \<Rightarrow> None)"

section \<open>A sample project\<close>

text \<open>
  A project at \<^verbatim>\<open>/proj\<close> on which the theorems below are exercised: \<^verbatim>\<open>a.py\<close> and
  \<^verbatim>\<open>b.py\<close> are readable, \<^verbatim>\<open>locked.py\<close> exists but cannot be read, \<^verbatim>\<open>gone.py\<close> is
  named by the cache but does not exist.
\<close>

definition demo_root :: path where
  "demo_root = Path ''/'' [''proj'']"

definition demo_cache :: ContextCache where
  "demo_cache =
     \<lparr>recent_files = PList [PStr ''a.py'', PStr ''gone.py'', PStr ''locked.py''],
      hot_files = PDict [(''a.py'', PInt 1), (''locked.py'', PInt 4), (''b.py'', PInt 2)],
      last_query = PStr ''old query'', last_task = PStr ''old task'',
      timestamp = PStr ''2024-04-30T09:00:00Z''\<rparr>"

definition demo_src :: "string \<Rightarrow> src_file option" where
  "demo_src p =
     (if p = ''/proj/a.py'' then Some (Text (''import os'' @ [CHR 0x0A] @ ''x = 1'' @ [CHR 0x0A]))
      else if p = ''/proj/b.py'' then Some (Text ''y = 2'')
      else if p = ''/proj/locked.py'' then Some Unreadable
      else None)"

definition demo_index :: "index_entry list" where
  "demo_index =
     [\<lparr>entry_chunk = \<lparr>path = ''b.py'', start_line = 1, end_line = 1, content = ''y = 2'',
                       content_hash = ''h2''\<rparr>,
       embedding = [0, 1], fingerprint = ''f2''\<rparr>,
      \<lparr>entry_chunk = \<lparr>path = ''a.py'', start_line = 2, end_line = 2, content = ''x = 1'',
                       content_hash = ''h1''\<rparr>,
       embedding = [0, 0], fingerprint = ''f1''\<rparr>,
      \<lparr>entry_chunk = \<lparr>path = ''a.py'', start_line = 1, end_line = 1, content = ''import os'',
                       content_hash = ''h0''\<rparr>,
       embedding = [1, 0], fingerprint = ''f1''\<rparr>]"

definition demo_embed :: "string \<Rightarrow> real list" where
  "demo_embed q = [1, 0]"

definition demo_world :: world where
  "demo_world =
     \<lparr>src = demo_src,
      cache_store = (\<lambda>p. if p = ''/proj/.mcp/memory/context_cache.json''
                          then Some (Doc (to_dict demo_cache)) else None),
      stat_error = (\<lambda>p. False),
      write_ok = (\<lambda>p. True),
      clock = ''2024-05-01T10:00:00'',
      vs_load = (\<lambda>d. Inr True),
      vs_search = (\<lambda>d q k. Inr (search dot demo_embed demo_index q (nat k))),
      parse_imports = (\<lambda>p. if p = ''/proj/a.py'' then Inr [''import os.path''] else Inl LibraryError),
      trace = []\<rparr>"

text \<open>The same project on a file system where the cache file cannot be written.\<close>

definition readonly_world :: world where
  "readonly_world = demo_world\<lparr>write_ok := (\<lambda>p. False)\<rparr>"

text \<open>The same project with a cache file that is valid JSON but holds \<^verbatim>\<open>{"recent_files": 5}\<close>.\<close>

definition mistyped_world :: world where
  "mistyped_world =
     demo_world\<lparr>cache_store := (\<lambda>p. Some (Doc (PDict [(''recent_files'', PInt 5)])))\<rparr>"


definition demo_indexer :: indexer where
  "demo_indexer =
     \<lparr>chunker = (\<lambda>p t. [\<lparr>path = p, start_line = 1, end_line = 1, content = t, content_hash = t\<rparr>]),
      provider = Some (\<lambda>texts. if ''bad'' \<in> set texts then None
                                else Some (map (\<lambda>t. [1, 0]) texts))\<rparr>"

definition demo_disk :: "disk_file list" where
  "demo_disk =
     [\<lparr>file_path = ''a.py'', file_fingerprint = ''f1'', file_text = Some ''x''\<rparr>,
      \<lparr>file_path = ''locked.py'', file_fingerprint = ''f2'', file_text = None\<rparr>,
      \<lparr>file_path = ''c.py'', file_fingerprint = ''f3'', file_text = Some ''bad''\<rparr>]"

definition demo_state :: index_state where
  "demo_state =
     \<lparr>entries = [\<lparr>entry_chunk = \<lparr>path = ''old.py'', start_line = 1, end_line = 1,
                                    content = ''z'', content_hash = ''z''\<rparr>,
                   embedding = [1, 0], fingerprint = ''f0''\<rparr>],
      embedding_cache = [(''z'', [1, 0])]\<rparr>"

section \<open>Facts about the primitives\<close>

lemmas demo_defs =
  demo_world_def demo_root_def demo_cache_def demo_src_def readonly_world_def
  mistyped_world_def get_cache_path_def path_div_def mk_path_def str_path_def to_dict_def
  is_absolute_def path_anchor_def

lemma log_event_fields:
  "src (log_event e w) = src w"
  "cache_store (log_event e w) = cache_store w"
  "stat_error (log_event e w) = stat_error w"
  "write_ok (log_event e w) = write_ok w"
  "clock (log_event e w) = clock w"
  "vs_load (log_event e w) = vs_load w"
  "vs_search (log_event e w) = vs_search w"
  "trace (log_event e w) = trace w @ [e]"
  by (simp_all add: log_event_def)

lemma cache_writable_log: "cache_writable (log_event e w) p = cache_writable w p"
  by (simp add: cache_writable_def log_event_fields)

lemma from_dict_to_dict: "from_dict (to_dict c) = Inr c"
  by (simp add: from_dict_def to_dict_def field_names_def dict_get_def)

lemma load_cache_ok:
  "\<not> stat_error w (str_path (get_cache_path rt)) \<Longrightarrow>
   load_cache rt w =
     Inr (read_cache w (str_path (get_cache_path rt)),
          log_event (CacheLoad (str_path (get_cache_path rt))) w)"
  by (simp add: load_cache_def Let_def)

lemma load_cache_stat_error:
  "stat_error w (str_path (get_cache_path rt)) \<Longrightarrow> load_cache rt w = Inl OSError"
  by (simp add: load_cache_def Let_def)

lemma load_cache_eq_Inr:
  "load_cache rt w = Inr (c, w1) \<longleftrightarrow>
   \<not> stat_error w (str_path (get_cache_path rt))
   \<and> c = read_cache w (str_path (get_cache_path rt))
   \<and> w1 = log_event (CacheLoad (str_path (get_cache_path rt))) w"
  by (auto simp: load_cache_def Let_def)

lemma load_cache_writable:
  "cache_writable w (str_path (get_cache_path rt)) \<Longrightarrow>
   load_cache rt w =
     Inr (read_cache w (str_path (get_cache_path rt)),
          log_event (CacheLoad (str_path (get_cache_path rt))) w)"
  by (simp add: load_cache_ok cache_writable_def)

lemma save_cache_Inr:
  "save_cache c rt w = Inr w' \<Longrightarrow>
   cache_writable w (str_path (get_cache_path rt))
   \<and> cache_store w' (str_path (get_cache_path rt)) =
       Some (Doc (to_dict (c\<lparr>timestamp := PStr (clock w @ ''Z'')\<rparr>)))
   \<and> stat_error w' = stat_error w
   \<and> trace w' = trace w @ [CacheSave (str_path (get_cache_path rt))]"
  by (auto simp: save_cache_def log_event_def Let_def split: if_splits)

lemma load_after_save:
  assumes "save_cache c rt w = Inr w'"
  shows "load_cache rt w' =
     Inr (c\<lparr>timestamp := PStr (clock w @ ''Z'')\<rparr>,
          log_event (CacheLoad (str_path (get_cache_path rt))) w')"
proof -
  from save_cache_Inr[OF assms] have
    "\<not> stat_error w' (str_path (get_cache_path rt))"
    "cache_store w' (str_path (get_cache_path rt)) =
       Some (Doc (to_dict (c\<lparr>timestamp := PStr (clock w @ ''Z'')\<rparr>)))"
    by (simp_all add: cache_writable_def)
  then show ?thesis
    by (simp add: load_cache_ok read_cache_def from_dict_to_dict)
qed

lemma save_cache_writable:
  "cache_writable w (str_path (get_cache_path rt)) \<Longrightarrow> \<exists>w'. save_cache c rt w = Inr w'"
  by (simp add: save_cache_def Let_def)

lemma save_cache_not_writable:
  "\<not> cache_writable w (str_path (get_cache_path rt)) \<Longrightarrow> save_cache c rt w = Inl OSError"
  by (simp add: save_cache_def Let_def)

lemma map_of_dict_set: "map_of (dict_set d k v) = (map_of d)(k \<mapsto> v)"
  by (induction d) (auto simp: fun_eq_iff)

lemma count_list_take: "count_list (take n xs) x \<le> count_list xs x"
proof (induction xs arbitrary: n)
  case Nil
  then show ?case by simp
next
  case (Cons a xs)
  show ?case
  proof (cases n)
    case 0
    then show ?thesis by simp
  next
    case (Suc m)
    with Cons[of m] show ?thesis by simp
  qed
qed

lemma count_list_remove1: "x \<in> set xs \<Longrightarrow> Suc (count_list (remove1 x xs) x) = count_list xs x"
  by (induction xs) auto

lemma distinct_take_cons_remove1: "distinct xs \<Longrightarrow> distinct (take n (x # remove1 x xs))"
  by (rule distinct_take) simp

lemma demo_cache_path:
  "str_path (get_cache_path demo_root) = ''/proj/.mcp/memory/context_cache.json''"
  by (simp add: demo_defs)

lemma demo_load:
  "load_cache demo_root demo_world =
     Inr (demo_cache, log_event (CacheLoad ''/proj/.mcp/memory/context_cache.json'') demo_world)"
  by (simp add: load_cache_def demo_cache_path Let_def read_cache_def demo_world_def
      from_dict_to_dict)

section \<open>Saving and loading\<close>

text \<open>
  Claim C10. Saving a cache and loading it again is a round trip: whenever
  \<open>save_cache c root\<close> has written the file, \<open>load_cache root\<close> returns, and it returns a
  cache whose \<open>recent_files\<close>, \<open>hot_files\<close>, \<open>last_query\<close> and \<open>last_task\<close> are those of
  \<open>c\<close>; the timestamp alone is the time of saving. This holds for every value of the
  fields.
\<close>

theorem save_load_roundtrip:
  assumes "save_cache c rt w = Inr w'"
  shows "\<exists>c' w2. load_cache rt w' = Inr (c', w2)
       \<and> recent_files c' = recent_files c
       \<and> hot_files c' = hot_files c
       \<and> last_query c' = last_query c
       \<and> last_task c' = last_task c
       \<and> timestamp c' = PStr (clock w @ ''Z'')"
  by (simp add: load_after_save[OF assms])

theorem save_load_roundtrip_witness:
  "\<exists>w' c' w2. save_cache demo_cache demo_root demo_world = Inr w'
     \<and> load_cache demo_root w' = Inr (c', w2)
     \<and> recent_files c' = PList [PStr ''a.py'', PStr ''gone.py'', PStr ''locked.py'']
     \<and> hot_files c' = PDict [(''a.py'', PInt 1), (''locked.py'', PInt 4), (''b.py'', PInt 2)]
     \<and> last_query c' = PStr ''old query''
     \<and> last_task c' = PStr ''old task''
     \<and> timestamp c' = PStr ''2024-05-01T10:00:00Z''"
proof -
  obtain w' where s: "save_cache demo_cache demo_root demo_world = Inr w'"
    by (simp add: save_cache_def cache_writable_def demo_world_def Let_def)
  from save_load_roundtrip[OF s] s show ?thesis
    by (auto simp: demo_cache_def demo_world_def)
qed

text \<open>
  Claim C3, as the claim states it, fails: a cache file that is valid JSON but does
  not match the schema, \<^verbatim>\<open>{"recent_files": 5}\<close>, is not replaced by an empty cache.
  \<open>load_cache\<close> returns a cache whose \<open>recent_files\<close> is the number 5.
\<close>

theorem load_cache_schema_counterexample:
  "result_value (load_cache demo_root mistyped_world) =
     Some \<lparr>recent_files = PInt 5, hot_files = PDict [], last_query = PStr [],
           last_task = PStr [], timestamp = PStr []\<rparr>
   \<and> result_value (load_cache demo_root mistyped_world) \<noteq> Some empty_cache"
  by (simp add: result_value_def load_cache_def read_cache_def from_dict_def field_names_def
      dict_get_def empty_cache_def Let_def mistyped_world_def demo_world_def)

text \<open>
  Claim C3, amended. Where the path of the cache file can be examined, \<open>load_cache\<close>
  does not fail its caller. It returns the empty cache when the file is absent, when
  opening or parsing it fails, when the JSON value is not an object, and when the object
  has a key that is not a field name. An object whose keys are all field names is
  accepted as it is: absent fields take their defaults and the values are not checked
  against the field types.
\<close>

theorem load_cache_cases:
  "\<not> stat_error w (str_path (get_cache_path rt)) \<longrightarrow>
   (\<exists>c w'. load_cache rt w = Inr (c, w')
      \<and> (cache_store w (str_path (get_cache_path rt)) = None
            \<or> cache_store w (str_path (get_cache_path rt)) = Some Corrupt
          \<longrightarrow> c = empty_cache)
      \<and> (\<forall>data. cache_store w (str_path (get_cache_path rt)) = Some (Doc data)
             \<and> (\<forall>d. data \<noteq> PDict d)
           \<longrightarrow> c = empty_cache)
      \<and> (\<forall>d. cache_store w (str_path (get_cache_path rt)) = Some (Doc (PDict d))
             \<and> \<not> set (map fst d) \<subseteq> set field_names
           \<longrightarrow> c = empty_cache)
      \<and> (\<forall>d. cache_store w (str_path (get_cache_path rt)) = Some (Doc (PDict d))
             \<and> set (map fst d) \<subseteq> set field_names
           \<longrightarrow> c = \<lparr>recent_files = dict_get d ''recent_files'' (PList []),
                     hot_files = dict_get d ''hot_files'' (PDict []),
                     last_query = dict_get d ''last_query'' (PStr []),
                     last_task = dict_get d ''last_task'' (PStr []),
                     timestamp = dict_get d ''timestamp'' (PStr [])\<rparr>))"
proof
  let ?cp = "str_path (get_cache_path rt)"
  assume ok: "\<not> stat_error w ?cp"
  have a: "cache_store w ?cp = None \<or> cache_store w ?cp = Some Corrupt
      \<longrightarrow> read_cache w ?cp = empty_cache"
    by (auto simp: read_cache_def)
  have b: "\<forall>data. cache_store w ?cp = Some (Doc data) \<and> (\<forall>d. data \<noteq> PDict d)
      \<longrightarrow> read_cache w ?cp = empty_cache"
  proof (intro allI impI)
    fix data
    assume "cache_store w ?cp = Some (Doc data) \<and> (\<forall>d. data \<noteq> PDict d)"
    then show "read_cache w ?cp = empty_cache"
      by (cases data) (auto simp: read_cache_def from_dict_def)
  qed
  have c: "\<forall>d. cache_store w ?cp = Some (Doc (PDict d)) \<and> \<not> set (map fst d) \<subseteq> set field_names
      \<longrightarrow> read_cache w ?cp = empty_cache"
    by (auto simp: read_cache_def from_dict_def list_all_iff)
  have d: "\<forall>d. cache_store w ?cp = Some (Doc (PDict d)) \<and> set (map fst d) \<subseteq> set field_names
      \<longrightarrow> read_cache w ?cp =
            \<lparr>recent_files = dict_get d ''recent_files'' (PList []),
             hot_files = dict_get d ''hot_files'' (PDict []),
             last_query = dict_get d ''last_query'' (PStr []),
             last_task = dict_get d ''last_task'' (PStr []),
             timestamp = dict_get d ''timestamp'' (PStr [])\<rparr>"
    by (auto simp: read_cache_def from_dict_def list_all_iff)
  show "\<exists>c w'. load_cache rt w = Inr (c, w')
      \<and> (cache_store w ?cp = None \<or> cache_store w ?cp = Some Corrupt \<longrightarrow> c = empty_cache)
      \<and> (\<forall>data. cache_store w ?cp = Some (Doc data) \<and> (\<forall>d. data \<noteq> PDict d)
           \<longrightarrow> c = empty_cache)
      \<and> (\<forall>d. cache_store w ?cp = Some (Doc (PDict d)) \<and> \<not> set (map fst d) \<subseteq> set field_names
           \<longrightarrow> c = empty_cache)
      \<and> (\<forall>d. cache_store w ?cp = Some (Doc (PDict d)) \<and> set (map fst d) \<subseteq> set field_names
           \<longrightarrow> c = \<lparr>recent_files = dict_get d ''recent_files'' (PList []),
                     hot_files = dict_get d ''hot_files'' (PDict []),
                     last_query = dict_get d ''last_query'' (PStr []),
                     last_task = dict_get d ''last_task'' (PStr []),
                     timestamp = dict_get d ''timestamp'' (PStr [])\<rparr>)"
    unfolding load_cache_ok[OF ok] using a b c d by blast
qed

theorem load_cache_cases_witness:
  "result_value (load_cache demo_root (demo_world\<lparr>cache_store := (\<lambda>p. None)\<rparr>))
       = Some empty_cache
   \<and> result_value (load_cache demo_root (demo_world\<lparr>cache_store := (\<lambda>p. Some Corrupt)\<rparr>))
       = Some empty_cache
   \<and> result_value (load_cache demo_root
        (demo_world\<lparr>cache_store := (\<lambda>p. Some (Doc (PList [])))\<rparr>)) = Some empty_cache
   \<and> result_value (load_cache demo_root
        (demo_world\<lparr>cache_store := (\<lambda>p. Some (Doc (PDict [(''version'', PInt 2)])))\<rparr>))
       = Some empty_cache
   \<and> result_value (load_cache demo_root mistyped_world) =
       Some \<lparr>recent_files = PInt 5, hot_files = PDict [], last_query = PStr [],
             last_task = PStr [], timestamp = PStr []\<rparr>"
proof -
  have a: "result_value (load_cache demo_root (demo_world\<lparr>cache_store := (\<lambda>p. None)\<rparr>))
       = Some empty_cache"
    using load_cache_cases[of "demo_world\<lparr>cache_store := (\<lambda>p. None)\<rparr>" demo_root]
    by (auto simp: demo_world_def result_value_def)
  have b: "result_value (load_cache demo_root (demo_world\<lparr>cache_store := (\<lambda>p. Some Corrupt)\<rparr>))
       = Some empty_cache"
    using load_cache_cases[of "demo_world\<lparr>cache_store := (\<lambda>p. Some Corrupt)\<rparr>" demo_root]
    by (auto simp: demo_world_def result_value_def)
  have c: "result_value (load_cache demo_root
        (demo_world\<lparr>cache_store := (\<lambda>p. Some (Doc (PList [])))\<rparr>)) = Some empty_cache"
    using load_cache_cases[of "demo_world\<lparr>cache_store := (\<lambda>p. Some (Doc (PList [])))\<rparr>" demo_root]
    by (auto simp: demo_world_def result_value_def)
  have d: "result_value (load_cache demo_root
        (demo_world\<lparr>cache_store := (\<lambda>p. Some (Doc (PDict [(''version'', PInt 2)])))\<rparr>))
       = Some empty_cache"
    using load_cache_cases[of
        "demo_world\<lparr>cache_store := (\<lambda>p. Some (Doc (PDict [(''version'', PInt 2)])))\<rparr>" demo_root]
    by (auto simp: demo_world_def result_value_def field_names_def)
  have e: "result_value (load_cache demo_root mistyped_world) =
       Some \<lparr>recent_files = PInt 5, hot_files = PDict [], last_query = PStr [],
             last_task = PStr [], timestamp = PStr []\<rparr>"
    using load_cache_cases[of mistyped_world demo_root]
    by (auto simp: mistyped_world_def demo_world_def result_value_def field_names_def
        dict_get_def)
  from a b c d e show ?thesis by blast
qed

section \<open>Tracking a file access\<close>

text \<open>
  Claim C9. Let the cache file be writable; \<open>load_cache\<close> then returns. Let the loaded
  cache have a list \<open>rs\<close> as \<open>recent_files\<close> and a dict \<open>d\<close> as \<open>hot_files\<close> in which the
  count of the path is a number \<open>n\<close> (0 when the path is absent): these are the
  conditions under which the Python code reaches \<open>save_cache\<close> and returns. Then
  \<open>track_file_access\<close> returns and the cache it has persisted has the tracked path first
  in \<open>recent_files\<close>, at most 20 entries there, no more occurrences of the tracked path
  than before (one, if there was none or one), the count \<open>n + 1\<close> for the path in
  \<open>hot_files\<close>, every other count unchanged, and the same \<open>last_query\<close> and \<open>last_task\<close>.
\<close>

theorem track_file_access_effect:
  assumes wr: "cache_writable w (str_path (get_cache_path rt))"
  shows "\<exists>c w1. load_cache rt w = Inr (c, w1)
       \<and> (\<forall>rs d n. recent_files c = PList rs \<and> hot_files c = PDict d
              \<and> count_key (dict_get d (str_path p) (PInt 0)) = Some n \<longrightarrow>
           (\<exists>w' c' w2 rs' d'. track_file_access p rt w = Inr w'
              \<and> load_cache rt w' = Inr (c', w2)
              \<and> recent_files c' = PList rs'
              \<and> hot_files c' = PDict d'
              \<and> rs' \<noteq> [] \<and> hd rs' = PStr (str_path p)
              \<and> length rs' \<le> 20
              \<and> count_list rs' (PStr (str_path p)) \<le> max 1 (count_list rs (PStr (str_path p)))
              \<and> (distinct rs \<longrightarrow> distinct rs')
              \<and> map_of d' (str_path p) = Some (PInt (n + 1))
              \<and> (\<forall>k. k \<noteq> str_path p \<longrightarrow> map_of d' k = map_of d k)
              \<and> last_query c' = last_query c
              \<and> last_task c' = last_task c))"
proof -
  let ?cp = "str_path (get_cache_path rt)"
  define c where "c = read_cache w ?cp"
  define w1 where "w1 = log_event (CacheLoad ?cp) w"
  have lc: "load_cache rt w = Inr (c, w1)"
    using load_cache_writable[OF wr] by (simp add: c_def w1_def)
  have main: "\<exists>w' c' w2 rs' d'. track_file_access p rt w = Inr w'
              \<and> load_cache rt w' = Inr (c', w2)
              \<and> recent_files c' = PList rs'
              \<and> hot_files c' = PDict d'
              \<and> rs' \<noteq> [] \<and> hd rs' = PStr (str_path p)
              \<and> length rs' \<le> 20
              \<and> count_list rs' (PStr (str_path p)) \<le> max 1 (count_list rs (PStr (str_path p)))
              \<and> (distinct rs \<longrightarrow> distinct rs')
              \<and> map_of d' (str_path p) = Some (PInt (n + 1))
              \<and> (\<forall>k. k \<noteq> str_path p \<longrightarrow> map_of d' k = map_of d k)
              \<and> last_query c' = last_query c
              \<and> last_task c' = last_task c"
    if rs: "recent_files c = PList rs" and hs: "hot_files c = PDict d"
      and cnt: "count_key (dict_get d (str_path p) (PInt 0)) = Some n" for rs d n
  proof -
    define x where "x = PStr (str_path p)"
    define rs' where "rs' = take 20 (x # (if x \<in> set rs then remove1 x rs else rs))"
    define d' where "d' = dict_set d (str_path p) (PInt (n + 1))"
    define c' where "c' = c\<lparr>recent_files := PList rs', hot_files := PDict d'\<rparr>"
    have add: "add_one (dict_get d (str_path p) (PInt 0)) = Inr (PInt (n + 1))"
      using cnt by (auto simp: add_one_def count_key_def split: pyval.splits)
    have tr: "track_file_access p rt w = save_cache c' rt w1"
      using rs hs add
      by (simp add: track_file_access_def lc Let_def c'_def rs'_def d'_def x_def)
    have "cache_writable w1 ?cp"
      using wr by (simp add: w1_def cache_writable_log)
    then obtain w' where sv: "save_cache c' rt w1 = Inr w'"
      using save_cache_writable by blast
    have ld: "load_cache rt w' =
        Inr (c'\<lparr>timestamp := PStr (clock w1 @ ''Z'')\<rparr>, log_event (CacheLoad ?cp) w')"
      by (rule load_after_save[OF sv])
    have cnt_le: "count_list rs' x \<le> max 1 (count_list rs x)"
    proof (cases "x \<in> set rs")
      case True
      have "count_list rs' x \<le> count_list (x # remove1 x rs) x"
        unfolding rs'_def if_P[OF True] by (rule count_list_take)
      also have "\<dots> = count_list rs x"
        using count_list_remove1[OF True] by simp
      finally show ?thesis by simp
    next
      case False
      have "count_list rs' x \<le> count_list (x # rs) x"
        unfolding rs'_def if_not_P[OF False] by (rule count_list_take)
      also have "\<dots> = 1" using False by (simp add: count_list_0_iff)
      finally show ?thesis by simp
    qed
    have dist: "distinct rs \<longrightarrow> distinct rs'"
    proof
      assume dr: "distinct rs"
      show "distinct rs'"
      proof (cases "x \<in> set rs")
        case True
        show ?thesis unfolding rs'_def if_P[OF True] by (rule distinct_take_cons_remove1[OF dr])
      next
        case False
        have "distinct (x # rs)" using dr False by simp
        then show ?thesis unfolding rs'_def if_not_P[OF False] by (rule distinct_take)
      qed
    qed
    have basic: "rs' \<noteq> []" "hd rs' = x" "length rs' \<le> 20"
      by (simp_all add: rs'_def)
    have maps: "map_of d' (str_path p) = Some (PInt (n + 1))"
      "\<forall>k. k \<noteq> str_path p \<longrightarrow> map_of d' k = map_of d k"
      by (simp_all add: d'_def map_of_dict_set)
    show ?thesis
      apply (rule exI[of _ w'])
      apply (rule exI[of _ "c'\<lparr>timestamp := PStr (clock w1 @ ''Z'')\<rparr>"])
      apply (rule exI[of _ "log_event (CacheLoad ?cp) w'"])
      apply (rule exI[of _ rs'])
      apply (rule exI[of _ d'])
      using tr sv ld cnt_le dist basic maps by (simp add: c'_def x_def)
  qed
  show ?thesis
    apply (rule exI[of _ c], rule exI[of _ w1])
    using lc main by blast
qed

theorem track_file_access_effect_witness:
  "\<exists>w' c' w2 rs' d'. track_file_access (Path [] [''b.py'']) demo_root demo_world = Inr w'
       \<and> load_cache demo_root w' = Inr (c', w2)
       \<and> recent_files c' = PList rs'
       \<and> hot_files c' = PDict d'
       \<and> hd rs' = PStr ''b.py''
       \<and> length rs' \<le> 20
       \<and> distinct rs'
       \<and> map_of d' ''b.py'' = Some (PInt 3)
       \<and> map_of d' ''a.py'' = Some (PInt 1)
       \<and> last_query c' = PStr ''old query''
       \<and> last_task c' = PStr ''old task''"
proof -
  have h1: "cache_writable demo_world (str_path (get_cache_path demo_root))"
    by (simp add: cache_writable_def demo_world_def)
  have h2: "recent_files demo_cache = PList [PStr ''a.py'', PStr ''gone.py'', PStr ''locked.py'']"
    by (simp add: demo_cache_def)
  have h3: "hot_files demo_cache =
      PDict [(''a.py'', PInt 1), (''locked.py'', PInt 4), (''b.py'', PInt 2)]"
    by (simp add: demo_cache_def)
  have h4: "count_key (dict_get [(''a.py'', PInt 1), (''locked.py'', PInt 4), (''b.py'', PInt 2)]
      (str_path (Path [] [''b.py''])) (PInt 0)) = Some 2"
    by (simp add: count_key_def dict_get_def str_path_def)
  from track_file_access_effect[OF h1, of "Path [] [''b.py'']"] demo_load
  have "\<forall>rs d n. recent_files demo_cache = PList rs \<and> hot_files demo_cache = PDict d
              \<and> count_key (dict_get d (str_path (Path [] [''b.py''])) (PInt 0)) = Some n \<longrightarrow>
           (\<exists>w' c' w2 rs' d'. track_file_access (Path [] [''b.py'']) demo_root demo_world = Inr w'
              \<and> load_cache demo_root w' = Inr (c', w2)
              \<and> recent_files c' = PList rs'
              \<and> hot_files c' = PDict d'
              \<and> rs' \<noteq> [] \<and> hd rs' = PStr (str_path (Path [] [''b.py'']))
              \<and> length rs' \<le> 20
              \<and> count_list rs' (PStr (str_path (Path [] [''b.py''])))
                   \<le> max 1 (count_list rs (PStr (str_path (Path [] [''b.py'']))))
              \<and> (distinct rs \<longrightarrow> distinct rs')
              \<and> map_of d' (str_path (Path [] [''b.py''])) = Some (PInt (n + 1))
              \<and> (\<forall>k. k \<noteq> str_path (Path [] [''b.py'']) \<longrightarrow> map_of d' k = map_of d k)
              \<and> last_query c' = last_query demo_cache
              \<and> last_task c' = last_task demo_cache)"
    by auto
  from this[rule_format, OF conjI[OF h2 conjI[OF h3 h4]]] show ?thesis
    by (auto simp: str_path_def demo_cache_def)
qed

section \<open>Semantic context\<close>

lemma semantic_search_snd:
  "snd (semantic_search q limit rt w) =
     (if vs_load w (index_dir rt) = Inr True
      then log_event (StoreSearch (index_dir rt)) (log_event (StoreLoad (index_dir rt)) w)
      else log_event (StoreLoad (index_dir rt)) w)"
  by (auto simp: semantic_search_def Let_def split: sum.splits bool.splits)

lemma semantic_search_writable:
  "cache_writable (snd (semantic_search q limit rt w)) p = cache_writable w p"
  by (simp add: semantic_search_snd cache_writable_log)

lemma semantic_search_stat:
  "stat_error (snd (semantic_search q limit rt w)) = stat_error w"
  by (simp add: semantic_search_snd log_event_fields)

lemma semantic_search_fst:
  "fst (semantic_search q limit rt w) =
     (case vs_load w (index_dir rt) of
        Inr True \<Rightarrow> (case vs_search w (index_dir rt) q limit of
                        Inr results \<Rightarrow> collect_results results ([], 0)
                      | Inl e \<Rightarrow> ([], 0))
      | Inr False \<Rightarrow> ([], 0)
      | Inl e \<Rightarrow> ([], 0))"
  by (auto simp: semantic_search_def Let_def split: sum.splits bool.splits)

lemma get_semantic_context_unfold:
  "get_semantic_context q limit rt w =
     (case load_cache rt (snd (semantic_search q limit rt w)) of
        Inl e \<Rightarrow> Inl e
      | Inr x \<Rightarrow>
          (case save_cache ((fst x)\<lparr>last_query := PStr q\<rparr>) rt (snd x) of
             Inl e \<Rightarrow> Inl e
           | Inr w4 \<Rightarrow>
               Inr (\<lparr>files = fst (fst (semantic_search q limit rt w)),
                     token_count = snd (fst (semantic_search q limit rt w)),
                     source = ''semantic''\<rparr>, w4)))"
  by (simp add: get_semantic_context_def Let_def split_beta split: sum.splits)

lemma get_semantic_context_writable:
  assumes "cache_writable w (str_path (get_cache_path rt))"
  shows "\<exists>w4. get_semantic_context q limit rt w =
           Inr (\<lparr>files = fst (fst (semantic_search q limit rt w)),
                 token_count = snd (fst (semantic_search q limit rt w)),
                 source = ''semantic''\<rparr>, w4)"
proof -
  let ?cp = "str_path (get_cache_path rt)"
  let ?w2 = "snd (semantic_search q limit rt w)"
  have w2: "cache_writable ?w2 ?cp"
    using assms by (simp add: semantic_search_writable)
  have ld: "load_cache rt ?w2 = Inr (read_cache ?w2 ?cp, log_event (CacheLoad ?cp) ?w2)"
    by (rule load_cache_writable[OF w2])
  have "cache_writable (log_event (CacheLoad ?cp) ?w2) ?cp"
    using w2 by (simp add: cache_writable_log)
  then obtain w4 where
    "save_cache ((read_cache ?w2 ?cp)\<lparr>last_query := PStr q\<rparr>) rt (log_event (CacheLoad ?cp) ?w2)
       = Inr w4"
    using save_cache_writable by blast
  then show ?thesis by (simp add: get_semantic_context_unfold ld)
qed

lemma get_semantic_context_not_writable:
  assumes "\<not> cache_writable w (str_path (get_cache_path rt))"
  shows "get_semantic_context q limit rt w = Inl OSError"
proof -
  let ?cp = "str_path (get_cache_path rt)"
  let ?w2 = "snd (semantic_search q limit rt w)"
  show ?thesis
  proof (cases "stat_error w ?cp")
    case True
    then have "load_cache rt ?w2 = Inl OSError"
      by (simp add: load_cache_stat_error semantic_search_stat)
    then show ?thesis by (simp add: get_semantic_context_unfold)
  next
    case False
    then have ld: "load_cache rt ?w2 = Inr (read_cache ?w2 ?cp, log_event (CacheLoad ?cp) ?w2)"
      by (simp add: load_cache_ok semantic_search_stat)
    have "\<not> cache_writable (log_event (CacheLoad ?cp) ?w2) ?cp"
      using assms by (simp add: cache_writable_log semantic_search_writable)
    then show ?thesis
      by (simp add: get_semantic_context_unfold ld save_cache_not_writable)
  qed
qed

text \<open>
  Claim C1, as the claim states it, fails: on a project whose cache file cannot be
  written, \<open>get_semantic_context\<close> raises the error of \<open>save_cache\<close>, although the search
  itself was guarded.
\<close>

theorem get_semantic_context_raises_counterexample:
  "get_semantic_context ''parse json'' 5 demo_root readonly_world = Inl OSError"
  by (rule get_semantic_context_not_writable)
     (simp add: cache_writable_def readonly_world_def)

text \<open>
  Claim C1, amended. Where the cache file can be written, \<open>get_semantic_context\<close> returns
  a result with source \<open>semantic\<close> for every query, limit and root, and the result has
  no files and token count 0 when the index is missing or cannot be loaded, when the
  search raises and when it finds nothing. Where the cache file cannot be written, the
  call raises the error of the write.
\<close>

theorem get_semantic_context_result:
  "(cache_writable w (str_path (get_cache_path rt)) \<longrightarrow>
      (\<exists>res w'. get_semantic_context q limit rt w = Inr (res, w')
         \<and> source res = ''semantic''
         \<and> (vs_load w (index_dir rt) \<noteq> Inr True
              \<or> (\<exists>e. vs_search w (index_dir rt) q limit = Inl e)
              \<or> vs_search w (index_dir rt) q limit = Inr []
            \<longrightarrow> files res = [] \<and> token_count res = 0)))
   \<and> (\<not> cache_writable w (str_path (get_cache_path rt)) \<longrightarrow>
        get_semantic_context q limit rt w = Inl OSError)"
proof (intro conjI impI)
  assume wr: "cache_writable w (str_path (get_cache_path rt))"
  have empty: "fst (semantic_search q limit rt w) = ([], 0)"
    if "vs_load w (index_dir rt) \<noteq> Inr True
          \<or> (\<exists>e. vs_search w (index_dir rt) q limit = Inl e)
          \<or> vs_search w (index_dir rt) q limit = Inr []"
    using that by (auto simp: semantic_search_fst split: sum.splits bool.splits)
  from get_semantic_context_writable[OF wr, of q limit] obtain w4 where
    "get_semantic_context q limit rt w =
           Inr (\<lparr>files = fst (fst (semantic_search q limit rt w)),
                 token_count = snd (fst (semantic_search q limit rt w)),
                 source = ''semantic''\<rparr>, w4)"
    by blast
  then show "\<exists>res w'. get_semantic_context q limit rt w = Inr (res, w')
         \<and> source res = ''semantic''
         \<and> (vs_load w (index_dir rt) \<noteq> Inr True
              \<or> (\<exists>e. vs_search w (index_dir rt) q limit = Inl e)
              \<or> vs_search w (index_dir rt) q limit = Inr []
            \<longrightarrow> files res = [] \<and> token_count res = 0)"
    using empty by simp
next
  assume "\<not> cache_writable w (str_path (get_cache_path rt))"
  then show "get_semantic_context q limit rt w = Inl OSError"
    by (rule get_semantic_context_not_writable)
qed

theorem get_semantic_context_result_witness:
  "(\<exists>res w'. get_semantic_context ''parse json'' 5 demo_root
                (demo_world\<lparr>vs_load := (\<lambda>d. Inl LibraryError)\<rparr>) = Inr (res, w')
      \<and> source res = ''semantic'' \<and> files res = [] \<and> token_count res = 0)
   \<and> get_semantic_context ''parse json'' 5 demo_root readonly_world = Inl OSError"
proof -
  have a: "cache_writable (demo_world\<lparr>vs_load := (\<lambda>d. Inl LibraryError)\<rparr>)
             (str_path (get_cache_path demo_root))"
    by (simp add: cache_writable_def demo_world_def)
  have b: "vs_load (demo_world\<lparr>vs_load := (\<lambda>d. Inl LibraryError)\<rparr>) (index_dir demo_root) \<noteq> Inr True"
    by simp
  have c: "\<not> cache_writable readonly_world (str_path (get_cache_path demo_root))"
    by (simp add: cache_writable_def readonly_world_def)
  from get_semantic_context_result[of "demo_world\<lparr>vs_load := (\<lambda>d. Inl LibraryError)\<rparr>"
      demo_root "''parse json''" 5] a b
  have "\<exists>res w'. get_semantic_context ''parse json'' 5 demo_root
                (demo_world\<lparr>vs_load := (\<lambda>d. Inl LibraryError)\<rparr>) = Inr (res, w')
      \<and> source res = ''semantic'' \<and> files res = [] \<and> token_count res = 0"
    by blast
  moreover from get_semantic_context_result[of readonly_world demo_root "''parse json''" 5] c
  have "get_semantic_context ''parse json'' 5 demo_root readonly_world = Inl OSError"
    by blast
  ultimately show ?thesis by blast
qed

section \<open>The lifecycle of the cache\<close>

lemma get_recent_context_world:
  "get_recent_context limit max_lines rt w = Inr (res, w') \<Longrightarrow>
   w' = log_event (CacheLoad (str_path (get_cache_path rt))) w"
  by (auto simp: get_recent_context_def simp: load_cache_eq_Inr split: sum.splits)

lemma get_hot_context_world:
  "get_hot_context limit max_lines rt w = Inr (res, w') \<Longrightarrow>
   w' = log_event (CacheLoad (str_path (get_cache_path rt))) w"
  by (auto simp: get_hot_context_def simp: load_cache_eq_Inr split: sum.splits pyval.splits)

lemma track_file_access_save:
  "track_file_access p rt w = Inr w' \<Longrightarrow>
   \<exists>c. save_cache c rt (log_event (CacheLoad (str_path (get_cache_path rt))) w) = Inr w'"
  by (auto simp: track_file_access_def Let_def load_cache_eq_Inr
      split: sum.splits pyval.splits)

lemma update_task_save:
  "update_task task rt w = Inr w' \<Longrightarrow>
   \<exists>c. save_cache c rt (log_event (CacheLoad (str_path (get_cache_path rt))) w) = Inr w'"
  by (auto simp: update_task_def simp: load_cache_eq_Inr split: sum.splits)

lemma get_semantic_context_save:
  "get_semantic_context q limit rt w = Inr (res, w') \<Longrightarrow>
   \<exists>c. save_cache c rt (log_event (CacheLoad (str_path (get_cache_path rt)))
          (snd (semantic_search q limit rt w))) = Inr w'"
  by (auto simp: get_semantic_context_unfold simp: load_cache_eq_Inr split: sum.splits)

text \<open>
  Claim C7, as the claim states it, fails for \<open>get_semantic_context\<close>: it does not load
  the cache at its start. On the sample project its accesses are, in order, the load of
  the vector store, the search, and only then the load and the save of the cache.
\<close>

theorem semantic_loads_cache_last_counterexample:
  "result_trace (get_semantic_context ''parse json'' 3 demo_root demo_world) =
     Some [StoreLoad ''/proj/.mcp/vector_index'', StoreSearch ''/proj/.mcp/vector_index'',
           CacheLoad ''/proj/.mcp/memory/context_cache.json'',
           CacheSave ''/proj/.mcp/memory/context_cache.json'']"
  by code_simp

text \<open>
  Claim C7, amended. \<open>get_recent_context\<close> and \<open>get_hot_context\<close> load the cache once, as
  their only access, and leave the cache file unchanged. \<open>track_file_access\<close> and
  \<open>update_task\<close> load the cache once at their start and, when they return, have saved it
  once at their end. \<open>get_semantic_context\<close> first loads the vector store and searches
  it; it loads the cache once after that and, when it returns, has saved it once at its
  end.
\<close>

theorem cache_lifecycle:
  "(\<forall>res w'. get_recent_context limit max_lines rt w = Inr (res, w') \<longrightarrow>
       trace w' = trace w @ [CacheLoad (str_path (get_cache_path rt))]
       \<and> cache_store w' = cache_store w)
   \<and> (\<forall>res w'. get_hot_context limit max_lines rt w = Inr (res, w') \<longrightarrow>
       trace w' = trace w @ [CacheLoad (str_path (get_cache_path rt))]
       \<and> cache_store w' = cache_store w)
   \<and> (\<forall>w'. track_file_access p rt w = Inr w' \<longrightarrow>
       trace w' = trace w @ [CacheLoad (str_path (get_cache_path rt)),
                             CacheSave (str_path (get_cache_path rt))])
   \<and> (\<forall>w'. update_task task rt w = Inr w' \<longrightarrow>
       trace w' = trace w @ [CacheLoad (str_path (get_cache_path rt)),
                             CacheSave (str_path (get_cache_path rt))])
   \<and> (\<forall>res w'. get_semantic_context q limit rt w = Inr (res, w') \<longrightarrow>
       trace w' = trace w @ [StoreLoad (index_dir rt),
                             CacheLoad (str_path (get_cache_path rt)),
                             CacheSave (str_path (get_cache_path rt))]
       \<or> trace w' = trace w @ [StoreLoad (index_dir rt), StoreSearch (index_dir rt),
                               CacheLoad (str_path (get_cache_path rt)),
                               CacheSave (str_path (get_cache_path rt))])"
proof (intro conjI allI impI)
  fix res w'
  assume "get_recent_context limit max_lines rt w = Inr (res, w')"
  then have "w' = log_event (CacheLoad (str_path (get_cache_path rt))) w"
    by (rule get_recent_context_world)
  then show "trace w' = trace w @ [CacheLoad (str_path (get_cache_path rt))]"
    and "cache_store w' = cache_store w"
    by (simp_all add: log_event_fields)
next
  fix res w'
  assume "get_hot_context limit max_lines rt w = Inr (res, w')"
  then have "w' = log_event (CacheLoad (str_path (get_cache_path rt))) w"
    by (rule get_hot_context_world)
  then show "trace w' = trace w @ [CacheLoad (str_path (get_cache_path rt))]"
    and "cache_store w' = cache_store w"
    by (simp_all add: log_event_fields)
next
  fix w'
  assume "track_file_access p rt w = Inr w'"
  then obtain c where
    "save_cache c rt (log_event (CacheLoad (str_path (get_cache_path rt))) w) = Inr w'"
    using track_file_access_save by blast
  from save_cache_Inr[OF this]
  show "trace w' = trace w @ [CacheLoad (str_path (get_cache_path rt)),
                             CacheSave (str_path (get_cache_path rt))]"
    by (simp add: log_event_fields)
next
  fix w'
  assume "update_task task rt w = Inr w'"
  then obtain c where
    "save_cache c rt (log_event (CacheLoad (str_path (get_cache_path rt))) w) = Inr w'"
    using update_task_save by blast
  from save_cache_Inr[OF this]
  show "trace w' = trace w @ [CacheLoad (str_path (get_cache_path rt)),
                             CacheSave (str_path (get_cache_path rt))]"
    by (simp add: log_event_fields)
next
  fix res w'
  assume "get_semantic_context q limit rt w = Inr (res, w')"
  then obtain c where
    "save_cache c rt (log_event (CacheLoad (str_path (get_cache_path rt)))
          (snd (semantic_search q limit rt w))) = Inr w'"
    using get_semantic_context_save by blast
  from save_cache_Inr[OF this]
  have "trace w' = trace (snd (semantic_search q limit rt w))
       @ [CacheLoad (str_path (get_cache_path rt)), CacheSave (str_path (get_cache_path rt))]"
    by (simp add: log_event_fields)
  then show "trace w' = trace w @ [StoreLoad (index_dir rt),
                             CacheLoad (str_path (get_cache_path rt)),
                             CacheSave (str_path (get_cache_path rt))]
       \<or> trace w' = trace w @ [StoreLoad (index_dir rt), StoreSearch (index_dir rt),
                               CacheLoad (str_path (get_cache_path rt)),
                               CacheSave (str_path (get_cache_path rt))]"
    by (simp add: semantic_search_snd log_event_fields split: if_splits)
qed

theorem cache_lifecycle_witness:
  "(\<exists>res w'. get_recent_context 5 50 demo_root demo_world = Inr (res, w')
       \<and> trace w' = [CacheLoad ''/proj/.mcp/memory/context_cache.json'']
       \<and> cache_store w' = cache_store demo_world)
   \<and> (\<exists>w'. update_task ''fix loader'' demo_root demo_world = Inr w'
       \<and> trace w' = [CacheLoad ''/proj/.mcp/memory/context_cache.json'',
                     CacheSave ''/proj/.mcp/memory/context_cache.json''])"
proof -
  have "result_value (get_recent_context 5 50 demo_root demo_world) \<noteq> None"
    by code_simp
  then obtain res w' where r: "get_recent_context 5 50 demo_root demo_world = Inr (res, w')"
    by (auto simp: result_value_def split: sum.splits)
  have "world_trace (update_task ''fix loader'' demo_root demo_world) \<noteq> None"
    by code_simp
  then obtain w2 where u: "update_task ''fix loader'' demo_root demo_world = Inr w2"
    by (auto simp: world_trace_def split: sum.splits)
  from cache_lifecycle[of 5 50 demo_root demo_world _ "''fix loader''"] r u demo_cache_path
  show ?thesis
    by (simp add: demo_world_def)
qed

section \<open>Dependency context\<close>

lemma split_on_not_Nil: "split_on sep cur s \<noteq> []"
  by (induction s arbitrary: cur) auto

lemma resolve_import_raises:
  "0 < i \<Longrightarrow> resolve_import w rt ps i acc = (acc, Some TypeError)"
  by (cases i) (simp_all add: path_plus_str_def)

lemma import_parts_length: "import_parts imp = Inr ps \<Longrightarrow> 0 < length ps"
  by (auto simp: import_parts_def split_on_not_Nil split: list.splits)

lemma dependency_loop_Cons:
  "dependency_loop w rt (imp # imps) acc =
     (acc, Some (case import_parts imp of Inl e \<Rightarrow> e | Inr ps \<Rightarrow> TypeError))"
proof (cases "import_parts imp")
  case (Inl e)
  then show ?thesis by simp
next
  case (Inr ps)
  then have "0 < length ps" by (rule import_parts_length)
  then show ?thesis using Inr by (simp add: resolve_import_raises)
qed

lemma dependency_loop_fst: "fst (dependency_loop w rt imps acc) = acc"
  by (cases imps) (simp_all add: dependency_loop_Cons del: dependency_loop.simps(2))

lemma dependency_body_fst: "fst (dependency_body fp rt w) = ([], 0)"
  by (simp add: dependency_body_def dependency_loop_fst split: sum.splits)

text \<open>
  Claim C5. For every file path, root and world, \<open>get_dependency_context\<close> returns a
  result with no files and token count 0, and does not raise. For a file whose first
  import names a module, building the candidate path raises \<open>TypeError\<close> (a path cannot be
  added to a string) before any file is appended, and the handler swallows it.
\<close>

theorem get_dependency_context_empty:
  "get_dependency_context fp rt w =
     Inr \<lparr>files = [], token_count = 0, source = ''dependency''\<rparr>
   \<and> (\<forall>imp imps ps. parse_imports w (str_path fp) = Inr (imp # imps)
          \<and> import_parts imp = Inr ps
        \<longrightarrow> dependency_body fp rt w = (([], 0), Some TypeError))"
proof (intro conjI allI impI)
  show "get_dependency_context fp rt w =
     Inr \<lparr>files = [], token_count = 0, source = ''dependency''\<rparr>"
    by (simp add: get_dependency_context_def dependency_body_fst Let_def)
next
  fix imp imps ps
  assume "parse_imports w (str_path fp) = Inr (imp # imps) \<and> import_parts imp = Inr ps"
  then show "dependency_body fp rt w = (([], 0), Some TypeError)"
    by (simp add: dependency_body_def dependency_loop_Cons del: dependency_loop.simps(2))
qed

theorem get_dependency_context_empty_witness:
  "get_dependency_context (Path ''/'' [''proj'', ''a.py'']) demo_root demo_world =
     Inr \<lparr>files = [], token_count = 0, source = ''dependency''\<rparr>
   \<and> dependency_body (Path ''/'' [''proj'', ''a.py'']) demo_root demo_world
       = (([], 0), Some TypeError)"
proof -
  have a: "parse_imports demo_world (str_path (Path ''/'' [''proj'', ''a.py''])) =
      Inr [''import os.path'']"
    by (simp add: demo_world_def str_path_def)
  have b: "import_parts ''import os.path'' = Inr [''os'', ''path'']"
    by code_simp
  from get_dependency_context_empty[of "Path ''/'' [''proj'', ''a.py'']" demo_root demo_world] a b
  show ?thesis by blast
qed

section \<open>Recent and hot files\<close>


lemma read_file_stat_error:
  "stat_error w (str_path p) \<Longrightarrow> read_file w ml p = Inl OSError"
  by (simp add: read_file_def path_exists_def)













section \<open>The merge of the automatic context\<close>

lemma token_len_nonneg: "0 \<le> token_len c"
  by (simp add: token_len_def)

lemma dict_set_absent: "k \<notin> set (map fst d) \<Longrightarrow> dict_set d k v = d @ [(k, v)]"
  by (induction d) auto

lemma dict_set_present: "k \<in> set (map fst d) \<Longrightarrow> map fst (dict_set d k v) = map fst d"
  by (induction d k v rule: dict_set.induct) auto

lemma dict_set_keys:
  "map fst (dict_set d k v) = (if k \<in> set (map fst d) then map fst d else map fst d @ [k])"
  by (simp add: dict_set_present dict_set_absent del: set_map)

lemma dict_set_distinct: "distinct (map fst d) \<Longrightarrow> distinct (map fst (dict_set d k v))"
  by (simp add: dict_set_keys)

lemma dict_set_not_Nil: "dict_set d k v \<noteq> []"
  by (induction d k v rule: dict_set.induct) auto

lemma dict_set_tokens:
  "sum_list (map (\<lambda>x. token_len (snd x)) (dict_set d k v))
     \<le> sum_list (map (\<lambda>x. token_len (snd x)) d) + token_len v"
  by (induction d) (auto simp: token_len_nonneg)

lemma merge_inv_start: "merge_inv b ([], 0)"
  by (simp add: merge_inv_def)

lemma merge_inv_step:
  assumes "merge_inv b (af, u)" and "u + token_len c < b"
  shows "merge_inv b (dict_set af p c, u + token_len c)"
  using assms dict_set_tokens[of af p c]
  by (auto simp: merge_inv_def dict_set_distinct dict_set_not_Nil)

lemma add_recent_inv: "merge_inv b st \<Longrightarrow> merge_inv b (add_recent b xs st)"
proof (induction b xs st rule: add_recent.induct)
  case (1 b st)
  then show ?case by simp
next
  case (2 b p c rest af u)
  then show ?case by (auto simp: merge_inv_step)
qed

lemma add_new_inv: "merge_inv b st \<Longrightarrow> merge_inv b (add_new b xs st)"
proof (induction b xs st rule: add_new.induct)
  case (1 b st)
  then show ?case by simp
next
  case (2 b p c rest af u)
  then show ?case by (auto simp: merge_inv_step)
qed

lemma dict_set_keys_subset: "set (map fst (dict_set d k v)) \<subseteq> insert k (set (map fst d))"
  by (simp add: dict_set_keys del: set_map) auto

lemma add_recent_keys:
  "set (map fst (fst (add_recent b xs st))) \<subseteq> set (map fst (fst st)) \<union> set (map fst xs)"
proof (induction b xs st rule: add_recent.induct)
  case (1 b st)
  then show ?case by simp
next
  case (2 b p c rest af u)
  show ?case
  proof (cases "u + token_len c < b")
    case True
    have "set (map fst (fst (add_recent b rest (dict_set af p c, u + token_len c))))
        \<subseteq> set (map fst (dict_set af p c)) \<union> set (map fst rest)"
      using 2(1)[OF True] by simp
    also have "\<dots> \<subseteq> insert p (set (map fst af)) \<union> set (map fst rest)"
      using dict_set_keys_subset[of af p c] by blast
    finally show ?thesis using True by auto
  next
    case False
    have "set (map fst (fst (add_recent b rest (af, u))))
        \<subseteq> set (map fst af) \<union> set (map fst rest)"
      using 2(2)[OF False] by simp
    then show ?thesis using False by auto
  qed
qed

lemma add_new_extends:
  "\<exists>ext. fst (add_new b xs st) = fst st @ ext \<and> set ext \<subseteq> set xs"
proof (induction b xs st rule: add_new.induct)
  case (1 b st)
  then show ?case by simp
next
  case (2 b p c rest af u)
  show ?case
  proof (cases "p \<notin> set (map fst af) \<and> u + token_len c < b")
    case True
    then have ds: "dict_set af p c = af @ [(p, c)]" by (simp add: dict_set_absent)
    from 2(1)[OF True] obtain ext where
      "fst (add_new b rest (dict_set af p c, u + token_len c)) = dict_set af p c @ ext"
      "set ext \<subseteq> set rest" by auto
    then have "fst (add_new b ((p, c) # rest) (af, u)) = af @ ((p, c) # ext)
        \<and> set ((p, c) # ext) \<subseteq> set ((p, c) # rest)"
      using True ds by auto
    then show ?thesis by (metis fst_conv)
  next
    case False
    from 2(2)[OF False] obtain ext where
      "fst (add_new b rest (af, u)) = af @ ext" "set ext \<subseteq> set rest" by auto
    then have "fst (add_new b ((p, c) # rest) (af, u)) = af @ ext
        \<and> set ext \<subseteq> set ((p, c) # rest)"
      using False by auto
    then show ?thesis by (metis fst_conv)
  qed
qed

lemma semantic_phase_cases:
  assumes "semantic_phase task b rt st w = Inr (st2, w2)"
  shows "merge_inv b st \<longrightarrow> merge_inv b st2"
    and "\<exists>sem. fst st2 = fst st @ sem \<and> (task = [] \<longrightarrow> sem = [])
          \<and> (sem \<noteq> [] \<longrightarrow> (\<exists>sr. get_semantic_context task 3 rt w = Inr (sr, w2)
                \<and> set sem \<subseteq> set (files sr)))"
proof -
  show "merge_inv b st \<longrightarrow> merge_inv b st2"
    using assms
    by (auto simp: semantic_phase_def add_new_inv split: if_splits sum.splits)
  show "\<exists>sem. fst st2 = fst st @ sem \<and> (task = [] \<longrightarrow> sem = [])
          \<and> (sem \<noteq> [] \<longrightarrow> (\<exists>sr. get_semantic_context task 3 rt w = Inr (sr, w2)
                \<and> set sem \<subseteq> set (files sr)))"
  proof (cases "task \<noteq> [] \<and> snd st < b")
    case True
    with assms obtain sr where
      g: "get_semantic_context task 3 rt w = Inr (sr, w2)" and
      s: "st2 = add_new b (files sr) st"
      by (auto simp: semantic_phase_def split: sum.splits)
    from add_new_extends[of b "files sr" st] obtain ext where
      "fst (add_new b (files sr) st) = fst st @ ext" "set ext \<subseteq> set (files sr)" by auto
    then show ?thesis using g s True by auto
  next
    case False
    with assms have "st2 = st" by (auto simp: semantic_phase_def split: if_splits)
    then show ?thesis by auto
  qed
qed

lemma hot_phase_cases:
  assumes "hot_phase b rt st w = Inr (st3, w3)"
  shows "merge_inv b st \<longrightarrow> merge_inv b st3"
    and "\<exists>hotf. fst st3 = fst st @ hotf
          \<and> (hotf \<noteq> [] \<longrightarrow> (\<exists>hr. get_hot_context 2 50 rt w = Inr (hr, w3)
                \<and> set hotf \<subseteq> set (files hr)))"
proof -
  show "merge_inv b st \<longrightarrow> merge_inv b st3"
    using assms
    by (auto simp: hot_phase_def add_new_inv split: if_splits sum.splits)
  show "\<exists>hotf. fst st3 = fst st @ hotf
          \<and> (hotf \<noteq> [] \<longrightarrow> (\<exists>hr. get_hot_context 2 50 rt w = Inr (hr, w3)
                \<and> set hotf \<subseteq> set (files hr)))"
  proof (cases "snd st < b")
    case True
    with assms obtain hr where
      g: "get_hot_context 2 50 rt w = Inr (hr, w3)" and
      s: "st3 = add_new b (files hr) st"
      by (auto simp: hot_phase_def split: sum.splits)
    from add_new_extends[of b "files hr" st] obtain ext where
      "fst (add_new b (files hr) st) = fst st @ ext" "set ext \<subseteq> set (files hr)" by auto
    then show ?thesis using g s by auto
  next
    case False
    with assms have "st3 = st" by (auto simp: hot_phase_def split: if_splits)
    then show ?thesis by auto
  qed
qed

declare digits.simps [simp del]

lemma digits_chars:
  "c \<in> set (digits n) \<Longrightarrow> 48 \<le> (of_char c :: nat) \<and> (of_char c :: nat) \<le> 57"
proof (induction n rule: digits.induct)
  case (1 n)
  show ?case
  proof (cases "n < 10")
    case True
    then have "digits n = [char_of (48 + n)]" by (subst digits.simps) simp
    with "1.prems" have "c = char_of (48 + n)" by simp
    then show ?thesis using True by simp
  next
    case False
    then have d: "digits n = digits (n div 10) @ [char_of (48 + n mod 10)]"
      by (subst digits.simps) simp
    show ?thesis
    proof (cases "c \<in> set (digits (n div 10))")
      case True
      then show ?thesis using "1.IH"[OF False] by simp
    next
      case False
      with "1.prems" d have "c = char_of (48 + n mod 10)" by simp
      moreover have "n mod 10 < 10" by simp
      ultimately show ?thesis by simp
    qed
  qed
qed

lemma digits_not_Nil: "digits n \<noteq> []"
  by (subst digits.simps) simp

lemma read_nat_snoc: "read_nat (s @ [c]) = 10 * read_nat s + (of_char c - 48)"
  by (simp add: read_nat_def)

lemma read_nat_digits: "read_nat (digits n) = n"
proof (induction n rule: digits.induct)
  case (1 n)
  show ?case
  proof (cases "n < 10")
    case True
    then have "digits n = [char_of (48 + n)]" by (subst digits.simps) simp
    then show ?thesis using True by (simp add: read_nat_def)
  next
    case False
    then have d: "digits n = digits (n div 10) @ [char_of (48 + n mod 10)]"
      by (subst digits.simps) simp
    have "n mod 10 < 10" by simp
    then have "(of_char (char_of (48 + n mod 10) :: char) :: nat) - 48 = n mod 10"
      by simp
    then show ?thesis
      using "1.IH"[OF False] by (simp add: d read_nat_snoc)
  qed
qed

lemma digits_no_minus: "take 1 (digits n) \<noteq> ''-''"
proof
  assume a: "take 1 (digits n) = ''-''"
  then have "CHR ''-'' \<in> set (digits n)"
    by (metis in_set_takeD list.set_intros(1))
  from digits_chars[OF this] show False by simp
qed

lemma read_int_show_int: "read_int (show_int i) = i"
proof (cases "i < 0")
  case True
  then show ?thesis by (simp add: read_int_def show_int_def read_nat_digits)
next
  case False
  then have "show_int i = digits (nat i)" by (simp add: show_int_def)
  then show ?thesis
    using False digits_no_minus[of "nat i"] by (simp only: read_int_def read_nat_digits if_False)
qed

lemma show_int_not_Nil: "show_int i \<noteq> []"
  by (simp add: show_int_def digits_not_Nil)

lemma show_int_nonspace: "c \<in> set (show_int i) \<Longrightarrow> \<not> is_space c"
  by (auto simp: show_int_def is_space_def Let_def dest!: digits_chars split: if_splits)

lemma show_int_no_newline: "CHR 0x0A \<notin> set (show_int i)"
  using show_int_nonspace[of "CHR 0x0A" i] by (auto simp: is_space_def)

lemma split_ws_nonspace:
  "(\<And>c. c \<in> set xs \<Longrightarrow> \<not> is_space c) \<Longrightarrow> split_ws cur (xs @ rest) = split_ws (cur @ xs) rest"
  by (induction xs arbitrary: cur) auto

lemma split_ws_show_int: "split_ws cur (show_int i @ rest) = split_ws (cur @ show_int i) rest"
  by (rule split_ws_nonspace) (rule show_int_nonspace)

lemma split_ws_show_int_end: "split_ws cur (show_int i) = [cur @ show_int i]"
  using split_ws_show_int[of cur i "[]"] by (simp add: show_int_not_Nil)

lemma header_words:
  "str_split (''# Files: '' @ show_int n @ '' | Tokens: ~'' @ show_int t) =
     [''#'', ''Files:'', show_int n, ''|'', ''Tokens:'', ''~'' @ show_int t]"
  by (simp add: str_split_def is_space_def Let_def split_ws_show_int split_ws_show_int_end
      show_int_not_Nil)

lemma second_line_eq:
  assumes "CHR 0x0A \<notin> set a" and "CHR 0x0A \<notin> set b"
  shows "second_line (a @ [CHR 0x0A] @ b @ [CHR 0x0A] @ rest) = b"
proof -
  have "dropWhile (\<lambda>c. c \<noteq> CHR 0x0A) (a @ [CHR 0x0A] @ b @ [CHR 0x0A] @ rest)
      = [CHR 0x0A] @ b @ [CHR 0x0A] @ rest"
    using assms(1) by (subst dropWhile_append2) auto
  moreover have "takeWhile (\<lambda>c. c \<noteq> CHR 0x0A) (b @ [CHR 0x0A] @ rest) = b"
    using assms(2) by (subst takeWhile_append2) auto
  ultimately show ?thesis by (simp add: second_line_def)
qed

lemma format_output_text:
  "format_output all_files tokens_used =
     ''# Auto-Loaded Context'' @ [CHR 0x0A]
     @ (''# Files: '' @ show_int (int (length all_files))
          @ '' | Tokens: ~'' @ show_int tokens_used) @ [CHR 0x0A]
     @ str_join [CHR 0x0A]
         ([] # concat (map (\<lambda>(p, c).
            [''## '' @ path_name (mk_path p), ''# '' @ p, ''```python'', take 1500 c, ''```'', []])
            all_files))"
  by (simp add: format_output_def)

lemma reported_format_output:
  "reported (format_output all_files tokens_used) = Some (int (length all_files), tokens_used)"
proof -
  let ?h = "''# Files: '' @ show_int (int (length all_files))
          @ '' | Tokens: ~'' @ show_int tokens_used"
  have "CHR 0x0A \<notin> set ''# Auto-Loaded Context''" by simp
  moreover have "CHR 0x0A \<notin> set ?h" by (simp add: show_int_no_newline)
  ultimately have "second_line (format_output all_files tokens_used) = ?h"
    unfolding format_output_text by (rule second_line_eq)
  then have "str_split (second_line (format_output all_files tokens_used)) =
      [''#'', ''Files:'', show_int (int (length all_files)), ''|'', ''Tokens:'',
       ''~'' @ show_int tokens_used]"
    by (simp only: header_words)
  then show ?thesis
    by (simp add: reported_def read_int_show_int)
qed

text \<open>
  Claim C4. Whenever \<open>get_auto_context\<close> returns, its text is the title line, a header
  line that reports the number of gathered files and the running total, and one section
  for each gathered file in order; reading the header back gives exactly these two
  numbers. The gathered files are those kept from the recent files, followed by files
  from the semantic results (none when the task is empty), followed by files from the
  hot files: a later source only appends and never replaces an entry. Their paths are
  pairwise distinct. The reported total is strictly below the budget if a file is
  included and 0 otherwise, and the included files together have no more tokens than
  the total.
\<close>

theorem get_auto_context_report:
  assumes "get_auto_context task token_budget rt w = Inr (out, w')"
  shows "\<exists>all_files tokens_used.
        out = ''# Auto-Loaded Context'' @ [CHR 0x0A]
             @ (''# Files: '' @ show_int (int (length all_files))
                  @ '' | Tokens: ~'' @ show_int tokens_used) @ [CHR 0x0A]
             @ str_join [CHR 0x0A]
                 ([] # concat (map (\<lambda>(p, c).
                    [''## '' @ path_name (mk_path p), ''# '' @ p, ''```python'', take 1500 c,
                     ''```'', []])
                    all_files))
      \<and> reported out = Some (int (length all_files), tokens_used)
      \<and> distinct (map fst all_files)
      \<and> (if all_files = [] then tokens_used = 0 else tokens_used < token_budget)
      \<and> sum_list (map (\<lambda>x. token_len (snd x)) all_files) \<le> tokens_used
      \<and> (\<exists>recent w1 sem hotf.
            get_recent_context 3 50 rt w = Inr (recent, w1)
            \<and> all_files = fst (add_recent token_budget (files recent) ([], 0)) @ sem @ hotf
            \<and> set (map fst (fst (add_recent token_budget (files recent) ([], 0))))
                 \<subseteq> set (map fst (files recent))
            \<and> (task = [] \<longrightarrow> sem = [])
            \<and> (sem \<noteq> [] \<longrightarrow> (\<exists>sr w2. get_semantic_context task 3 rt w1 = Inr (sr, w2)
                  \<and> set sem \<subseteq> set (files sr)))
            \<and> (hotf \<noteq> [] \<longrightarrow> (\<exists>w2 hr. get_hot_context 2 50 rt w2 = Inr (hr, w')
                  \<and> set hotf \<subseteq> set (files hr))))"
proof -
  from assms obtain all_files tokens_used where
    am: "auto_merge task token_budget rt w = Inr ((all_files, tokens_used), w')" and
    tx: "out = format_output all_files tokens_used"
    by (auto simp: get_auto_context_def split: sum.splits)
  from am obtain recent w1 st2 w2 where
    r: "get_recent_context 3 50 rt w = Inr (recent, w1)" and
    s: "semantic_phase task token_budget rt
          (add_recent token_budget (files recent) ([], 0)) w1 = Inr (st2, w2)" and
    h: "hot_phase token_budget rt st2 w2 = Inr ((all_files, tokens_used), w')"
    by (auto simp: auto_merge_def split: sum.splits)
  let ?st1 = "add_recent token_budget (files recent) ([], 0)"
  have i1: "merge_inv token_budget ?st1"
    by (rule add_recent_inv[OF merge_inv_start])
  have i2: "merge_inv token_budget st2"
    using semantic_phase_cases(1)[OF s] i1 by simp
  have i3: "merge_inv token_budget (all_files, tokens_used)"
    using hot_phase_cases(1)[OF h] i2 by simp
  from semantic_phase_cases(2)[OF s] obtain sem where
    sem: "fst st2 = fst ?st1 @ sem" "task = [] \<longrightarrow> sem = []"
      "sem \<noteq> [] \<longrightarrow> (\<exists>sr. get_semantic_context task 3 rt w1 = Inr (sr, w2)
          \<and> set sem \<subseteq> set (files sr))"
    by auto
  from hot_phase_cases(2)[OF h] obtain hotf where
    hot: "all_files = fst st2 @ hotf"
      "hotf \<noteq> [] \<longrightarrow> (\<exists>hr. get_hot_context 2 50 rt w2 = Inr (hr, w')
          \<and> set hotf \<subseteq> set (files hr))"
    by auto
  have keys: "set (map fst (fst ?st1)) \<subseteq> set (map fst (files recent))"
    using add_recent_keys[of token_budget "files recent" "([], 0)"] by simp
  have ex: "\<exists>recent w1 sem hotf.
            get_recent_context 3 50 rt w = Inr (recent, w1)
            \<and> all_files = fst (add_recent token_budget (files recent) ([], 0)) @ sem @ hotf
            \<and> set (map fst (fst (add_recent token_budget (files recent) ([], 0))))
                 \<subseteq> set (map fst (files recent))
            \<and> (task = [] \<longrightarrow> sem = [])
            \<and> (sem \<noteq> [] \<longrightarrow> (\<exists>sr w2. get_semantic_context task 3 rt w1 = Inr (sr, w2)
                  \<and> set sem \<subseteq> set (files sr)))
            \<and> (hotf \<noteq> [] \<longrightarrow> (\<exists>w2 hr. get_hot_context 2 50 rt w2 = Inr (hr, w')
                  \<and> set hotf \<subseteq> set (files hr)))"
    apply (rule exI[of _ recent], rule exI[of _ w1], rule exI[of _ sem], rule exI[of _ hotf])
    using r sem hot keys by auto
  from i3 have inv: "distinct (map fst all_files)"
    "if all_files = [] then tokens_used = 0 else tokens_used < token_budget"
    "sum_list (map (\<lambda>x. token_len (snd x)) all_files) \<le> tokens_used"
    by (auto simp: merge_inv_def split: if_splits)
  have t1: "out = ''# Auto-Loaded Context'' @ [CHR 0x0A]
             @ (''# Files: '' @ show_int (int (length all_files))
                  @ '' | Tokens: ~'' @ show_int tokens_used) @ [CHR 0x0A]
             @ str_join [CHR 0x0A]
                 ([] # concat (map (\<lambda>(p, c).
                    [''## '' @ path_name (mk_path p), ''# '' @ p, ''```python'', take 1500 c,
                     ''```'', []])
                    all_files))"
    unfolding tx by (rule format_output_text)
  have t2: "reported out = Some (int (length all_files), tokens_used)"
    unfolding tx by (rule reported_format_output)
  show ?thesis
    apply (rule exI[of _ all_files], rule exI[of _ tokens_used])
    using t1 t2 inv ex by (intro conjI)
qed

theorem get_auto_context_report_witness:
  "\<exists>out w'. get_auto_context ''parse'' 100 demo_root demo_world = Inr (out, w')
     \<and> reported out = Some (4, 13)
     \<and> (13::int) < 100"
proof -
  have "map_option reported (result_value (get_auto_context ''parse'' 100 demo_root demo_world))
      = Some (Some (4, 13))"
    by code_simp
  then obtain out w' where
    a: "get_auto_context ''parse'' 100 demo_root demo_world = Inr (out, w')" and
    b: "reported out = Some (4, 13)"
    by (auto simp: result_value_def split: sum.splits)
  from get_auto_context_report[OF a] have
    "\<exists>(all_files :: (string \<times> string) list) tokens_used.
        reported out = Some (int (length all_files), tokens_used)
        \<and> (if all_files = [] then tokens_used = 0 else tokens_used < 100)"
    by (elim exE conjE) (intro exI conjI, assumption+)
  then obtain all_files :: "(string \<times> string) list" and tokens_used where
    c: "reported out = Some (int (length all_files), tokens_used)"
      "if all_files = [] then tokens_used = 0 else tokens_used < 100"
    by (elim exE conjE)
  from b c show ?thesis
    using a by (intro exI[of _ out] exI[of _ w']) simp
qed

section \<open>Ranking\<close>

lemma cosine_zero_norm: "dot a a = 0 \<or> dot b b = 0 \<Longrightarrow> cosine a b = 0"
  by (auto simp: cosine_def)

lemma ranks_before_total: "\<not> ranks_before a b \<Longrightarrow> ranks_before b a"
  by (auto simp: ranks_before_def)

lemma ranks_before_trans: "ranks_before a b \<Longrightarrow> ranks_before b c \<Longrightarrow> ranks_before a c"
  by (auto simp: ranks_before_def)

lemma ranks_before_score: "ranks_before a b \<Longrightarrow> score b \<le> score a"
  by (auto simp: ranks_before_def)

lemma set_insert_ranked: "set (insert_ranked r xs) = insert r (set xs)"
  by (induction xs) auto

lemma length_insert_ranked: "length (insert_ranked r xs) = Suc (length xs)"
  by (induction xs) auto

lemma sorted_insert_ranked:
  "sorted_wrt ranks_before xs \<Longrightarrow> sorted_wrt ranks_before (insert_ranked r xs)"
proof (induction xs)
  case Nil
  then show ?case by simp
next
  case (Cons x xs)
  show ?case
  proof (cases "ranks_before r x")
    case True
    then have "\<forall>y \<in> set xs. ranks_before r y"
      using Cons.prems ranks_before_trans by auto
    then show ?thesis using True Cons.prems by simp
  next
    case False
    then have "ranks_before x r" by (rule ranks_before_total)
    then show ?thesis using False Cons by (auto simp: set_insert_ranked)
  qed
qed

lemma sorted_rank_results: "sorted_wrt ranks_before (rank_results rs)"
  unfolding rank_results_def by (induction rs) (simp_all add: sorted_insert_ranked)

lemma length_rank_results: "length (rank_results rs) = length rs"
  unfolding rank_results_def by (induction rs) (simp_all add: length_insert_ranked)

lemma sorted_wrt_take: "sorted_wrt P xs \<Longrightarrow> sorted_wrt P (take n xs)"
proof (induction xs arbitrary: n)
  case Nil
  then show ?case by simp
next
  case (Cons x xs)
  show ?case
  proof (cases n)
    case 0
    then show ?thesis by simp
  next
    case (Suc m)
    have "\<forall>y \<in> set (take m xs). P x y"
      using Cons.prems by (auto dest: in_set_takeD)
    then show ?thesis using Suc Cons by simp
  qed
qed

lemma collect_results_map:
  "collect_results rs (fs, tc) =
     (fs @ map (\<lambda>r. (path (result_chunk r), content (result_chunk r))) rs,
      tc + sum_list (map (\<lambda>r. token_len (content (result_chunk r))) rs))"
  by (induction rs arbitrary: fs tc) auto

text \<open>
  Claim C2. For every similarity, index, query and count \<open>k\<close>, \<open>search\<close> returns at most
  \<open>k\<close> results, each ranked before all later ones: scores never increase along the
  list, and of two results with equal scores the one with the smaller
  \<open>(path, start_line)\<close> comes first. Where the vector store loads and its \<open>search\<close> is
  this one, \<open>get_semantic_context\<close> returns the paths and contents of these results in
  this order, hence at most \<open>limit\<close> files.
\<close>

theorem search_ranked:
  "length (search sim embed_fn idx q k) \<le> k
   \<and> sorted_wrt ranks_before (search sim embed_fn idx q k)
   \<and> sorted_wrt (\<lambda>a b. score b \<le> score a) (search sim embed_fn idx q k)
   \<and> (\<forall>res w'. vs_load w (index_dir rt) = Inr True
          \<and> vs_search w (index_dir rt) q (int k) = Inr (search sim embed_fn idx q k)
          \<and> get_semantic_context q (int k) rt w = Inr (res, w')
        \<longrightarrow> files res = map (\<lambda>r. (path (result_chunk r), content (result_chunk r)))
                          (search sim embed_fn idx q k)
            \<and> length (files res) \<le> k)"
proof (intro conjI allI impI)
  show len: "length (search sim embed_fn idx q k) \<le> k"
    by (simp add: search_def)
  show srt: "sorted_wrt ranks_before (search sim embed_fn idx q k)"
    by (simp add: search_def sorted_wrt_take sorted_rank_results)
  show "sorted_wrt (\<lambda>a b. score b \<le> score a) (search sim embed_fn idx q k)"
    by (rule sorted_wrt_mono_rel[OF _ srt]) (simp add: ranks_before_score)
  fix res w'
  assume a: "vs_load w (index_dir rt) = Inr True
          \<and> vs_search w (index_dir rt) q (int k) = Inr (search sim embed_fn idx q k)
          \<and> get_semantic_context q (int k) rt w = Inr (res, w')"
  then have "fst (semantic_search q (int k) rt w) =
      (map (\<lambda>r. (path (result_chunk r), content (result_chunk r))) (search sim embed_fn idx q k),
       sum_list (map (\<lambda>r. token_len (content (result_chunk r))) (search sim embed_fn idx q k)))"
    by (simp add: semantic_search_fst collect_results_map)
  with a show f: "files res = map (\<lambda>r. (path (result_chunk r), content (result_chunk r)))
                          (search sim embed_fn idx q k)"
    by (auto simp: get_semantic_context_unfold split: sum.splits)
  show "length (files res) \<le> k"
    using f len by simp
qed

theorem search_ranked_witness:
  "search dot demo_embed demo_index ''parse'' 2 =
     [\<lparr>result_chunk = \<lparr>path = ''a.py'', start_line = 1, end_line = 1, content = ''import os'',
                        content_hash = ''h0''\<rparr>, score = 1\<rparr>,
      \<lparr>result_chunk = \<lparr>path = ''a.py'', start_line = 2, end_line = 2, content = ''x = 1'',
                        content_hash = ''h1''\<rparr>, score = 0\<rparr>]
   \<and> (\<exists>res w'. get_semantic_context ''parse'' 2 demo_root demo_world = Inr (res, w')
        \<and> files res = [(''a.py'', ''import os''), (''a.py'', ''x = 1'')]
        \<and> length (files res) \<le> 2)"
proof -
  have s: "search dot demo_embed demo_index ''parse'' 2 =
     [\<lparr>result_chunk = \<lparr>path = ''a.py'', start_line = 1, end_line = 1, content = ''import os'',
                        content_hash = ''h0''\<rparr>, score = 1\<rparr>,
      \<lparr>result_chunk = \<lparr>path = ''a.py'', start_line = 2, end_line = 2, content = ''x = 1'',
                        content_hash = ''h1''\<rparr>, score = 0\<rparr>]"
    by (simp add: search_def demo_embed_def demo_index_def rank_results_def dot_def
        ranks_before_def)
  have l: "vs_load demo_world (index_dir demo_root) = Inr True"
    by (simp add: demo_world_def)
  have v: "vs_search demo_world (index_dir demo_root) ''parse'' (int 2) =
      Inr (search dot demo_embed demo_index ''parse'' 2)"
    by (simp add: demo_world_def)
  have "result_value (get_semantic_context ''parse'' 2 demo_root demo_world) \<noteq> None"
    by code_simp
  then obtain res w' where
    g: "get_semantic_context ''parse'' (int 2) demo_root demo_world = Inr (res, w')"
    by (auto simp: result_value_def split: sum.splits)
  from search_ranked[of dot demo_embed demo_index "''parse''" 2 demo_world demo_root] l v g
  have "files res = map (\<lambda>r. (path (result_chunk r), content (result_chunk r)))
                          (search dot demo_embed demo_index ''parse'' 2)
        \<and> length (files res) \<le> 2"
    by blast
  then show ?thesis using s g by auto
qed

section \<open>Reindexing\<close>

lemma index_file_counts:
  "added (snd (index_file e c f acc)) + updated (snd (index_file e c f acc))
     + unchanged (snd (index_file e c f acc))
     \<le> added (snd acc) + updated (snd acc) + unchanged (snd acc) + 1
   \<and> added (snd acc) + updated (snd acc) + unchanged (snd acc) + failed (snd acc) + 1
     \<le> added (snd (index_file e c f acc)) + updated (snd (index_file e c f acc))
       + unchanged (snd (index_file e c f acc)) + failed (snd (index_file e c f acc))"
  by (simp add: index_file_def Let_def split: option.splits)

lemma foldl_index_file_counts:
  "added (snd (foldl (\<lambda>acc f. index_file e c f acc) acc disk))
     + updated (snd (foldl (\<lambda>acc f. index_file e c f acc) acc disk))
     + unchanged (snd (foldl (\<lambda>acc f. index_file e c f acc) acc disk))
     \<le> added (snd acc) + updated (snd acc) + unchanged (snd acc) + length disk
   \<and> added (snd acc) + updated (snd acc) + unchanged (snd acc) + failed (snd acc) + length disk
     \<le> added (snd (foldl (\<lambda>acc f. index_file e c f acc) acc disk))
       + updated (snd (foldl (\<lambda>acc f. index_file e c f acc) acc disk))
       + unchanged (snd (foldl (\<lambda>acc f. index_file e c f acc) acc disk))
       + failed (snd (foldl (\<lambda>acc f. index_file e c f acc) acc disk))"
proof (induction disk arbitrary: acc)
  case Nil
  then show ?case by simp
next
  case (Cons f disk)
  from Cons[of "index_file e c f acc"] index_file_counts[of e c f acc]
  show ?case by simp
qed

text \<open>
  Claim C8. For every project, \<open>reindex\<close> returns a summary with the counts added,
  updated, removed, unchanged and failed whenever an embedding provider is configured,
  whatever files cannot be read and whatever batches the provider fails on: every file
  on disk is counted as added, updated or unchanged, or accounts for a failure in the
  count of failed, and the index it returns holds entries of files on disk only. The
  one failure that aborts it is the missing provider, a failure of the configuration.
\<close>

theorem reindex_summary:
  "(provider ix = None \<longrightarrow> reindex ix disk st = Inl NoProvider)
   \<and> (\<forall>embed_fn. provider ix = Some embed_fn \<longrightarrow>
        (\<exists>st' s. reindex ix disk st = Inr (st', s)
           \<and> added s + updated s + unchanged s \<le> length disk
           \<and> length disk \<le> added s + updated s + unchanged s + failed s
           \<and> list_all (\<lambda>e. path (entry_chunk e) \<in> set (map file_path disk)) (entries st')))"
proof (intro conjI allI impI)
  assume "provider ix = None"
  then show "reindex ix disk st = Inl NoProvider"
    by (simp add: reindex_def)
next
  fix embed_fn
  assume p: "provider ix = Some embed_fn"
  let ?r = "foldl (\<lambda>acc f. index_file embed_fn (chunker ix) f acc) (st, empty_summary) disk"
  let ?st' = "(fst ?r)\<lparr>entries :=
      filter (\<lambda>e. path (entry_chunk e) \<in> set (map file_path disk)) (entries (fst ?r))\<rparr>"
  let ?s = "(snd ?r)\<lparr>removed := length (remdups (filter (\<lambda>p. p \<notin> set (map file_path disk))
      (map (\<lambda>e. path (entry_chunk e)) (entries (fst ?r)))))\<rparr>"
  have r: "reindex ix disk st = Inr (?st', ?s)"
    using p by (simp add: reindex_def Let_def)
  have c: "added ?s + updated ?s + unchanged ?s \<le> length disk
      \<and> length disk \<le> added ?s + updated ?s + unchanged ?s + failed ?s"
    using foldl_index_file_counts[of embed_fn "chunker ix" "(st, empty_summary)" disk]
    by (simp add: empty_summary_def)
  have e: "list_all (\<lambda>e. path (entry_chunk e) \<in> set (map file_path disk)) (entries ?st')"
    by (simp add: list_all_iff)
  show "\<exists>st' s. reindex ix disk st = Inr (st', s)
           \<and> added s + updated s + unchanged s \<le> length disk
           \<and> length disk \<le> added s + updated s + unchanged s + failed s
           \<and> list_all (\<lambda>e. path (entry_chunk e) \<in> set (map file_path disk)) (entries st')"
    using r c e by blast
qed

theorem reindex_summary_witness:
  "reindex (demo_indexer\<lparr>provider := None\<rparr>) demo_disk demo_state = Inl NoProvider
   \<and> (\<exists>st' s. reindex demo_indexer demo_disk demo_state = Inr (st', s)
         \<and> s = \<lparr>added = 2, updated = 0, removed = 1, unchanged = 0, failed = 2\<rparr>
         \<and> added s + updated s + unchanged s \<le> 3
         \<and> 3 \<le> added s + updated s + unchanged s + failed s)"
proof -
  have a: "provider (demo_indexer\<lparr>provider := None\<rparr>) = None" by simp
  have b: "provider demo_indexer = Some (\<lambda>texts. if ''bad'' \<in> set texts then None
                                else Some (map (\<lambda>t. [1, 0]) texts))"
    by (simp add: demo_indexer_def)
  have v: "map_sum id snd (reindex demo_indexer demo_disk demo_state) =
      Inr \<lparr>added = 2, updated = 0, removed = 1, unchanged = 0, failed = 2\<rparr>"
    by code_simp
  have l: "length demo_disk = 3" by (simp add: demo_disk_def)
  from reindex_summary[of "demo_indexer\<lparr>provider := None\<rparr>" demo_disk demo_state] a
  have n: "reindex (demo_indexer\<lparr>provider := None\<rparr>) demo_disk demo_state = Inl NoProvider"
    by blast
  from reindex_summary[of demo_indexer demo_disk demo_state] b
  obtain st' s where "reindex demo_indexer demo_disk demo_state = Inr (st', s)"
    "added s + updated s + unchanged s \<le> length demo_disk"
    "length demo_disk \<le> added s + updated s + unchanged s + failed s"
    by blast
  then show ?thesis using n v l by auto
qed

end
